theory Spec2Isabelle
  imports Main "HOL-Library.Sublist" "HOL-Library.List_Lexorder" "HOL-Library.Char_ord"
begin

section \<open>hexagen: a shallow embedding of \<^verbatim>\<open>main.go\<close>\<close>

text \<open>
  The program scaffolds a Go service: it creates a fixed tree of directories below a
  root, writes \<^verbatim>\<open>go.mod\<close> and a \<^verbatim>\<open>Makefile\<close>, and renders four embedded
  templates. Go strings are byte strings and are modelled as \<^typ>\<open>string\<close>; the file
  system is an explicit state; every \<^verbatim>\<open>error\<close> the source checks or drops is a
  value of the model.
\<close>

subsection \<open>The pieces of package \<^verbatim>\<open>strings\<close> and \<^verbatim>\<open>bufio\<close> that \<^verbatim>\<open>main\<close> calls\<close>

definition NL :: string where
  "NL = [CHR 0x0A]"

definition TAB :: string where
  "TAB = [CHR 0x09]"

text \<open>
  \<^verbatim>\<open>unicode.IsSpace\<close>: the UTF-8 encodings of the code points with the White_Space
  property (U+0009..U+000D, U+0020, U+0085, U+00A0, U+1680, U+2000..U+200A, U+2028,
  U+2029, U+202F, U+205F, U+3000).
\<close>

definition space_runes :: "string list" where
  "space_runes =
    [[CHR 0x09], [CHR 0x0A], [CHR 0x0B], [CHR 0x0C], [CHR 0x0D], [CHR 0x20],
     [CHR 0xC2, CHR 0x85], [CHR 0xC2, CHR 0xA0],
     [CHR 0xE1, CHR 0x9A, CHR 0x80],
     [CHR 0xE2, CHR 0x80, CHR 0x80], [CHR 0xE2, CHR 0x80, CHR 0x81],
     [CHR 0xE2, CHR 0x80, CHR 0x82], [CHR 0xE2, CHR 0x80, CHR 0x83],
     [CHR 0xE2, CHR 0x80, CHR 0x84], [CHR 0xE2, CHR 0x80, CHR 0x85],
     [CHR 0xE2, CHR 0x80, CHR 0x86], [CHR 0xE2, CHR 0x80, CHR 0x87],
     [CHR 0xE2, CHR 0x80, CHR 0x88], [CHR 0xE2, CHR 0x80, CHR 0x89],
     [CHR 0xE2, CHR 0x80, CHR 0x8A],
     [CHR 0xE2, CHR 0x80, CHR 0xA8], [CHR 0xE2, CHR 0x80, CHR 0xA9],
     [CHR 0xE2, CHR 0x80, CHR 0xAF], [CHR 0xE2, CHR 0x81, CHR 0x9F],
     [CHR 0xE3, CHR 0x80, CHR 0x80]]"

text \<open>
  \<^verbatim>\<open>strings.TrimLeftFunc\<close> for a set of runes given by their encodings: drop leading
  runes of the set until the string starts with something else.
\<close>

function trim_left :: "string list \<Rightarrow> string \<Rightarrow> string" where
  "trim_left ws s =
     (case find (\<lambda>w. w \<noteq> [] \<and> prefix w s) ws of
        None \<Rightarrow> s
      | Some w \<Rightarrow> trim_left ws (drop (length w) s))"
  by pat_completeness auto
termination
proof (relation "measure (\<lambda>(ws, s). length s)")
  show "wf (measure (\<lambda>(ws, s). length s))" by simp
next
  fix ws :: "string list" and s w :: string
  assume "find (\<lambda>w. w \<noteq> [] \<and> prefix w s) ws = Some w"
  then have "w \<noteq> []" and "prefix w s" by (auto simp: find_Some_iff)
  then show "((ws, drop (length w) s), (ws, s)) \<in> measure (\<lambda>(ws, s). length s)"
    by (auto simp: prefix_def)
qed

text \<open>\<^verbatim>\<open>strings.TrimSpace\<close>: white space is cut from both ends.\<close>

definition TrimSpace :: "string \<Rightarrow> string" where
  "TrimSpace s = rev (trim_left (map rev space_runes) (rev (trim_left space_runes s)))"

text \<open>
  \<^verbatim>\<open>strings.ToLower\<close> on the ASCII letters. Bytes of other runes are kept as they
  are; the source only compares the result with \<^verbatim>\<open>"y"\<close>, and no rune but
  \<^verbatim>\<open>Y\<close> has the lower case \<^verbatim>\<open>y\<close>.
\<close>

definition lower_char :: "char \<Rightarrow> char" where
  "lower_char c =
     (case map_of (zip ''ABCDEFGHIJKLMNOPQRSTUVWXYZ'' ''abcdefghijklmnopqrstuvwxyz'') c of
        None \<Rightarrow> c
      | Some d \<Rightarrow> d)"

definition ToLower :: "string \<Rightarrow> string" where
  "ToLower s = map lower_char s"

text \<open>
  \<^verbatim>\<open>reader.ReadString('\n')\<close> on the unread part of standard input: the bytes up
  to and including the first delimiter, or everything that is left at end of input
  (the source drops the error). The second component is what stays unread.
\<close>

definition ReadString :: "char \<Rightarrow> string \<Rightarrow> string \<times> string" where
  "ReadString delim inp =
     (case dropWhile (\<lambda>c. c \<noteq> delim) inp of
        [] \<Rightarrow> (inp, [])
      | d # rest \<Rightarrow> (takeWhile (\<lambda>c. c \<noteq> delim) inp @ [d], rest))"

subsection \<open>Configuration\<close>

record Config =
  Root :: string
  ModuleName :: string
  Port :: string
  Gitkeep :: bool
  Clean :: bool

text \<open>The values of the command line flags after \<^verbatim>\<open>flag.Parse()\<close>.\<close>

record Flags =
  flag_i :: bool
  flag_version :: bool
  flag_r :: string
  flag_m :: string
  flag_p :: string
  flag_g :: bool
  flag_c :: bool

text \<open>The defaults \<^verbatim>\<open>main\<close> registers for the flags.\<close>

definition default_flags :: Flags where
  "default_flags =
     \<lparr>flag_i = False, flag_version = False, flag_r = ''.'', flag_m = '''',
      flag_p = ''8080'', flag_g = False, flag_c = False\<rparr>"

text \<open>
  The interactive block of \<^verbatim>\<open>main\<close>: five prompts, each followed by one
  \<^verbatim>\<open>ReadString\<close>. The result is the configuration, what was printed, and the
  unread input.
\<close>

definition prompts :: "Config \<Rightarrow> string \<Rightarrow> Config \<times> string \<times> string" where
  "prompts cfg0 stdin0 =
     (let out1 = ''Project directory (default: .): '';
          (input1, stdin1) = ReadString (CHR 0x0A) stdin0;
          cfg1 = (if TrimSpace input1 \<noteq> '''' then cfg0\<lparr>Root := TrimSpace input1\<rparr> else cfg0);
          out2 = ''Go module name (github.com/user/project): '';
          (input2, stdin2) = ReadString (CHR 0x0A) stdin1;
          cfg2 = (if TrimSpace input2 \<noteq> '''' then cfg1\<lparr>ModuleName := TrimSpace input2\<rparr> else cfg1);
          out3 = ''Server port (default: '' @ Port cfg2 @ ''): '';
          (input3, stdin3) = ReadString (CHR 0x0A) stdin2;
          cfg3 = (if TrimSpace input3 \<noteq> '''' then cfg2\<lparr>Port := TrimSpace input3\<rparr> else cfg2);
          out4 = ''Add .gitkeep files? (y/N): '';
          (input4, stdin4) = ReadString (CHR 0x0A) stdin3;
          cfg4 = (if ToLower (TrimSpace input4) = ''y'' then cfg3\<lparr>Gitkeep := True\<rparr> else cfg3);
          out5 = ''Clean target directory first? (y/N): '';
          (input5, stdin5) = ReadString (CHR 0x0A) stdin4;
          cfg5 = (if ToLower (TrimSpace input5) = ''y'' then cfg4\<lparr>Clean := True\<rparr> else cfg4)
      in (cfg5, out1 @ out2 @ out3 @ out4 @ out5, stdin5))"

text \<open>
  Lines 58 to 97 of \<^verbatim>\<open>main\<close>: the configuration from the flags, the prompts when
  \<^verbatim>\<open>-i\<close> is given, then the default module name.
\<close>

definition main_config :: "Flags \<Rightarrow> string \<Rightarrow> Config \<times> string" where
  "main_config fl stdin0 =
     (let cfg = \<lparr>Root = flag_r fl, ModuleName = flag_m fl, Port = flag_p fl,
                 Gitkeep = flag_g fl, Clean = flag_c fl\<rparr>;
          (cfg', out) = (if flag_i fl then (case prompts cfg stdin0 of (c, out, _) \<Rightarrow> (c, out))
                         else (cfg, ''''));
          cfg'' = (if ModuleName cfg' = '''' then cfg'\<lparr>ModuleName := ''service.com/service''\<rparr>
                   else cfg')
      in (cfg'', out))"

text \<open>
  The reading of the spec's "overriding flags with typed answers" for a yes/no prompt:
  a blank answer keeps the flag, any other answer decides the field (yes exactly when it
  is \<^verbatim>\<open>y\<close> or \<^verbatim>\<open>Y\<close>).
\<close>

definition spec_answer_bool :: "bool \<Rightarrow> string \<Rightarrow> bool" where
  "spec_answer_bool flag answer =
     (if TrimSpace answer = '''' then flag else ToLower (TrimSpace answer) = ''y'')"

text \<open>What the source does with the answer to a text prompt and to a yes/no prompt.\<close>

definition answer_text :: "string \<Rightarrow> string \<Rightarrow> string" where
  "answer_text flag answer = (if TrimSpace answer \<noteq> '''' then TrimSpace answer else flag)"

definition answer_bool :: "bool \<Rightarrow> string \<Rightarrow> bool" where
  "answer_bool flag answer = (flag \<or> ToLower (TrimSpace answer) = ''y'')"

subsection \<open>Paths\<close>

text \<open>
  A path is the list of its components from the root of the file system; \<open>[]\<close> is
  \<^verbatim>\<open>/\<close>. Path names (the strings the source passes around) are split at
  \<^verbatim>\<open>/\<close> and cleaned as \<^verbatim>\<open>filepath.Clean\<close> does for a rooted path: empty
  components and \<^verbatim>\<open>.\<close> disappear, \<^verbatim>\<open>..\<close> removes the component before it (and
  nothing at the root).
\<close>

type_synonym path = "string list"

fun split_on :: "char \<Rightarrow> string \<Rightarrow> string list" where
  "split_on d [] = [[]]"
| "split_on d (c # cs) =
     (if c = d then [] # split_on d cs
      else (case split_on d cs of [] \<Rightarrow> [[c]] | w # ws \<Rightarrow> (c # w) # ws))"

definition clean_step :: "path \<Rightarrow> string \<Rightarrow> path" where
  "clean_step acc c =
     (if c = '''' \<or> c = ''.'' then acc else if c = ''..'' then butlast acc else acc @ [c])"

definition clean_onto :: "path \<Rightarrow> string list \<Rightarrow> path" where
  "clean_onto base cs = foldl clean_step base cs"

text \<open>
  \<^verbatim>\<open>filepath.Abs\<close>: a rooted name is cleaned, any other name is joined to the
  working directory. (The source drops the error of \<^verbatim>\<open>os.Getwd\<close>; the model always
  has a working directory.)
\<close>

definition Abs :: "path \<Rightarrow> string \<Rightarrow> path" where
  "Abs wd name =
     (if name \<noteq> [] \<and> hd name = CHR ''/'' then clean_onto [] (split_on (CHR ''/'') name)
      else clean_onto wd (split_on (CHR ''/'') name))"

text \<open>\<^verbatim>\<open>filepath.Join\<close> of an absolute, clean path and a name.\<close>

definition Join :: "path \<Rightarrow> string \<Rightarrow> path" where
  "Join base name = clean_onto base (split_on (CHR ''/'') name)"

text \<open>\<^verbatim>\<open>filepath.Dir\<close>: the parent; the parent of the root is the root.\<close>

definition Dir_of :: "path \<Rightarrow> path" where
  "Dir_of p = butlast p"

definition path_str :: "path \<Rightarrow> string" where
  "path_str p = (if p = [] then ''/'' else concat (map (\<lambda>c. ''/'' @ c) p))"

text \<open>What the kernel accepts as the name of a directory entry.\<close>

definition valid_name :: "string \<Rightarrow> bool" where
  "valid_name n = (n \<noteq> '''' \<and> n \<noteq> ''.'' \<and> n \<noteq> ''..'' \<and> CHR ''/'' \<notin> set n)"

subsection \<open>Errors\<close>

datatype errno = ENOENT | ENOTDIR | EISDIR | EEXIST | ErrNotExist

text \<open>
  \<^verbatim>\<open>PathError op path errno\<close> is Go's \<^verbatim>\<open>*fs.PathError\<close>; \<^verbatim>\<open>TemplateError\<close>
  carries the message of an error of package \<^verbatim>\<open>text/template\<close>.
\<close>

datatype error = PathError string string errno | TemplateError string

definition errno_str :: "errno \<Rightarrow> string" where
  "errno_str e =
     (case e of
        ENOENT \<Rightarrow> ''no such file or directory''
      | ENOTDIR \<Rightarrow> ''not a directory''
      | EISDIR \<Rightarrow> ''is a directory''
      | EEXIST \<Rightarrow> ''file exists''
      | ErrNotExist \<Rightarrow> ''file does not exist'')"

text \<open>The method \<^verbatim>\<open>Error()\<close>, which \<^verbatim>\<open>%v\<close> prints.\<close>

definition Error :: "error \<Rightarrow> string" where
  "Error e =
     (case e of
        PathError op name no \<Rightarrow> op @ '' '' @ name @ '': '' @ errno_str no
      | TemplateError msg \<Rightarrow> msg)"

subsection \<open>The file system\<close>

text \<open>
  The state of the file system is an association list from paths to nodes (the first
  entry for a path counts; a removed path has no entry), together with the trace of the
  calls of package \<^verbatim>\<open>os\<close> made so far, in order. An operation fails where the shape
  of the tree makes the system call fail: a regular file where a directory is needed, a
  directory where a regular file is to be written, a missing parent. Permissions, quotas
  and symbolic links are not modelled, so \<^verbatim>\<open>os.RemoveAll\<close> and writing to an open
  file never fail here; the source drops or propagates their errors as written below.
\<close>

datatype node = Dir | File string

datatype event =
    MkdirAllNameEv string
  | MkdirAllEv path
  | ReadDirEv path
  | RemoveAllEv path
  | WriteFileEv path string
  | CreateEv path
  | WriteEv path string

record state =
  files :: "(path \<times> node) list"
  trace :: "event list"

definition lookup :: "state \<Rightarrow> path \<Rightarrow> node option" where
  "lookup s p = (if p = [] then Some Dir else map_of (files s) p)"

definition is_file :: "node option \<Rightarrow> bool" where
  "is_file n = (case n of Some (File c) \<Rightarrow> True | _ \<Rightarrow> False)"

definition log :: "event \<Rightarrow> state \<Rightarrow> state" where
  "log ev s = s\<lparr>trace := trace s @ [ev]\<rparr>"

text \<open>
  \<^verbatim>\<open>os.MkdirAll\<close> on a resolved path. As in Go's source, the fast path comes
  first: a path that is a directory is left as it is. Otherwise the call is an error,
  and changes nothing, when the path or one of its ancestors is a regular file; and it
  creates every missing directory on the way when none is.
\<close>

definition MkdirAll :: "path \<Rightarrow> state \<Rightarrow> error option \<times> state" where
  "MkdirAll p s =
     (if lookup s p = Some Dir then (None, log (MkdirAllEv p) s)
      else (case find (\<lambda>q. is_file (lookup s q)) (prefixes p) of
        Some q \<Rightarrow> (Some (PathError ''mkdir'' (path_str q) ENOTDIR), log (MkdirAllEv p) s)
      | None \<Rightarrow>
          (None, log (MkdirAllEv p)
             (s\<lparr>files := map (\<lambda>q. (q, Dir)) (filter (\<lambda>q. lookup s q = None) (prefixes p))
                          @ files s\<rparr>))))"

text \<open>
  How the kernel resolves a path name (there are no symbolic links): the components are
  walked one by one from a directory; every component is looked up in a directory, so
  the walk so far must be an existing directory; an empty component and \<^verbatim>\<open>.\<close> stay,
  \<^verbatim>\<open>..\<close> goes to the parent.
\<close>

fun walk :: "state \<Rightarrow> path \<Rightarrow> string list \<Rightarrow> errno + path" where
  "walk s cur [] = Inr cur"
| "walk s cur (c # cs) =
     (case lookup s cur of
        None \<Rightarrow> Inl ENOENT
      | Some (File x) \<Rightarrow> Inl ENOTDIR
      | Some Dir \<Rightarrow> walk s (clean_step cur c) cs)"

text \<open>Where the walk starts: at the root for a rooted name, else at the working directory.\<close>

definition start_dir :: "path \<Rightarrow> string \<Rightarrow> path" where
  "start_dir wd name = (if name \<noteq> [] \<and> hd name = CHR ''/'' then [] else wd)"

text \<open>\<^verbatim>\<open>os.Stat\<close> (and \<^verbatim>\<open>os.Lstat\<close>, which is the same without symbolic links).\<close>

definition Stat :: "path \<Rightarrow> string \<Rightarrow> state \<Rightarrow> errno + node" where
  "Stat wd name s =
     (if name = '''' then Inl ENOENT
      else (case walk s (start_dir wd name) (split_on (CHR ''/'') name) of
              Inl e \<Rightarrow> Inl e
            | Inr p \<Rightarrow> (case lookup s p of None \<Rightarrow> Inl ENOENT | Some n \<Rightarrow> Inr n)))"

text \<open>
  \<^verbatim>\<open>os.Mkdir\<close>: the system call \<^verbatim>\<open>mkdir\<close>. Slashes at the end of the name are
  ignored; what is before the last component must resolve to a directory; the last
  component must be a new name in it (\<^verbatim>\<open>EEXIST\<close> for an existing entry, for
  \<^verbatim>\<open>.\<close> and \<^verbatim>\<open>..\<close>, and for the root).
\<close>

definition Mkdir :: "path \<Rightarrow> string \<Rightarrow> state \<Rightarrow> errno option \<times> state" where
  "Mkdir wd name s =
     (if name = '''' then (Some ENOENT, s)
      else
        (let cs = rev (dropWhile (\<lambda>c. c = '''') (rev (split_on (CHR ''/'') name)))
         in if cs = [] then (Some EEXIST, s)
            else (case walk s (start_dir wd name) (butlast cs) of
                    Inl e \<Rightarrow> (Some e, s)
                  | Inr parent \<Rightarrow>
                      (case lookup s parent of
                         None \<Rightarrow> (Some ENOENT, s)
                       | Some (File x) \<Rightarrow> (Some ENOTDIR, s)
                       | Some Dir \<Rightarrow>
                           if last cs = ''.'' \<or> last cs = ''..''
                              \<or> lookup s (parent @ [last cs]) \<noteq> None
                           then (Some EEXIST, s)
                           else (None, s\<lparr>files := (parent @ [last cs], Dir) # files s\<rparr>)))))"

text \<open>
  The name that \<^verbatim>\<open>os.MkdirAll\<close> scans for the parent: the slashes at the end of the
  path are skipped, then the last element; what is left is \<^verbatim>\<open>path[:j]\<close>.
\<close>

definition parent_end :: "string \<Rightarrow> string" where
  "parent_end name =
     rev (dropWhile (\<lambda>c. c \<noteq> CHR ''/'') (dropWhile (\<lambda>c. c = CHR ''/'') (rev name)))"

text \<open>
  \<^verbatim>\<open>os.MkdirAll\<close> on a path name, as in Go's source: the fast path (\<^verbatim>\<open>Stat\<close>
  tells a directory or a file), else the parent \<^verbatim>\<open>path[:j-1]\<close> is created first when
  \<^verbatim>\<open>j > 1\<close>, then \<^verbatim>\<open>Mkdir\<close> is called, and an error of \<^verbatim>\<open>Mkdir\<close> is dropped when
  the path is a directory after all. The error carries the name as it was given.
\<close>

function MkdirAll_rec :: "path \<Rightarrow> string \<Rightarrow> state \<Rightarrow> error option \<times> state" where
  "MkdirAll_rec wd name s =
     (case Stat wd name s of
        Inr Dir \<Rightarrow> (None, s)
      | Inr (File x) \<Rightarrow> (Some (PathError ''mkdir'' name ENOTDIR), s)
      | Inl e0 \<Rightarrow>
          (case (if 1 < length (parent_end name)
                 then MkdirAll_rec wd (butlast (parent_end name)) s else (None, s)) of
             (Some err, s1) \<Rightarrow> (Some err, s1)
           | (None, s1) \<Rightarrow>
               (case Mkdir wd name s1 of
                  (None, s2) \<Rightarrow> (None, s2)
                | (Some e, s2) \<Rightarrow>
                    (case Stat wd name s2 of
                       Inr Dir \<Rightarrow> (None, s2)
                     | Inr (File x) \<Rightarrow> (Some (PathError ''mkdir'' name e), s2)
                     | Inl e1 \<Rightarrow> (Some (PathError ''mkdir'' name e), s2)))))"
  by pat_completeness auto

termination MkdirAll_rec
proof (relation "measure (\<lambda>(wd, name, s). length name)")
  show "wf (measure (\<lambda>(wd, name, s). length name))" by simp
next
  fix wd :: path and name :: string and s :: state and e0 :: errno
  assume "1 < length (parent_end name)"
  moreover have "length (parent_end name) \<le> length name"
  proof -
    have "length (dropWhile P xs) \<le> length xs" for P and xs :: string
      by (rule length_dropWhile_le)
    from this [of "\<lambda>c. c \<noteq> CHR ''/''" "dropWhile (\<lambda>c. c = CHR ''/'') (rev name)"]
      this [of "\<lambda>c. c = CHR ''/''" "rev name"]
    show ?thesis by (simp add: parent_end_def)
  qed
  ultimately
  show "((wd, butlast (parent_end name), s), (wd, name, s)) \<in> measure (\<lambda>(wd, name, s). length name)"
    by simp
qed

text \<open>
  The call \<^verbatim>\<open>os.MkdirAll(cfg.Root, 0755)\<close> of line 111: the name is handed over as it
  is, relative to the working directory.
\<close>

definition MkdirAll_name :: "path \<Rightarrow> string \<Rightarrow> state \<Rightarrow> error option \<times> state" where
  "MkdirAll_name wd name s =
     (case MkdirAll_rec wd name s of (err, s1) \<Rightarrow> (err, log (MkdirAllNameEv name) s1))"

text \<open>
  Opening a path for writing with \<^verbatim>\<open>O_CREATE|O_TRUNC\<close>, as \<^verbatim>\<open>os.WriteFile\<close> and
  \<^verbatim>\<open>os.Create\<close> do: the error of the open, if any.
\<close>

definition open_error :: "path \<Rightarrow> state \<Rightarrow> error option" where
  "open_error p s =
     (if p = [] \<or> lookup s p = Some Dir then Some (PathError ''open'' (path_str p) EISDIR)
      else if lookup s (butlast p) = Some Dir then None
      else if list_ex (\<lambda>q. is_file (lookup s q)) (prefixes (butlast p))
        then Some (PathError ''open'' (path_str p) ENOTDIR)
      else Some (PathError ''open'' (path_str p) ENOENT))"

definition WriteFile :: "path \<Rightarrow> string \<Rightarrow> state \<Rightarrow> error option \<times> state" where
  "WriteFile p content s =
     (case open_error p s of
        Some err \<Rightarrow> (Some err, log (WriteFileEv p content) s)
      | None \<Rightarrow> (None, log (WriteFileEv p content) (s\<lparr>files := (p, File content) # files s\<rparr>)))"

text \<open>\<^verbatim>\<open>os.Create\<close>: the file exists and is empty afterwards.\<close>

definition Create :: "path \<Rightarrow> state \<Rightarrow> error option \<times> state" where
  "Create p s =
     (case open_error p s of
        Some err \<Rightarrow> (Some err, log (CreateEv p) s)
      | None \<Rightarrow> (None, log (CreateEv p) (s\<lparr>files := (p, File '''') # files s\<rparr>)))"

text \<open>Writing to the file opened at a path: the bytes are appended.\<close>

definition Write :: "path \<Rightarrow> string \<Rightarrow> state \<Rightarrow> state" where
  "Write p bytes s =
     log (WriteEv p bytes)
       (s\<lparr>files := (p, File ((case lookup s p of Some (File c) \<Rightarrow> c | _ \<Rightarrow> '''') @ bytes))
                    # files s\<rparr>)"

text \<open>
  \<^verbatim>\<open>os.ReadDir\<close>: the names of the entries of a directory, sorted by name; no
  entries and an error when the path is not a directory.
\<close>

definition ReadDir :: "path \<Rightarrow> state \<Rightarrow> (string list \<times> error option) \<times> state" where
  "ReadDir d s =
     (if lookup s d = Some Dir
      then ((sort (remdups (map (\<lambda>(q, n). last q)
                (filter (\<lambda>(q, n). q \<noteq> [] \<and> butlast q = d) (files s)))), None),
            log (ReadDirEv d) s)
      else (([], Some (PathError ''open'' (path_str d)
                  (if is_file (lookup s d) then ENOTDIR else ENOENT))),
            log (ReadDirEv d) s))"

text \<open>\<^verbatim>\<open>os.RemoveAll\<close>: the path and everything below it is gone; a missing path is no error.\<close>

definition RemoveAll :: "path \<Rightarrow> state \<Rightarrow> error option \<times> state" where
  "RemoveAll p s =
     (None, log (RemoveAllEv p) (s\<lparr>files := filter (\<lambda>(q, n). \<not> prefix p q) (files s)\<rparr>))"

text \<open>
  A well-formed tree: every component of an existing path is a valid name, and
  everything above an existing path is a directory.
\<close>

definition wf_state :: "state \<Rightarrow> bool" where
  "wf_state s =
     list_all (\<lambda>(q, n). list_all valid_name q
                 \<and> list_all (\<lambda>p. lookup s p = Some Dir) (butlast (prefixes q)))
       (files s)"

text \<open>A path is blocked when it or something above it is a regular file.\<close>

definition blocked :: "state \<Rightarrow> path \<Rightarrow> bool" where
  "blocked s p = list_ex (\<lambda>q. is_file (lookup s q)) (prefixes p)"

subsection \<open>The environment of a run\<close>

text \<open>
  What \<^verbatim>\<open>generate\<close> reads besides the file system: the working directory, the
  embedded template files (\<^verbatim>\<open>templateFS.ReadFile\<close>), and package
  \<^verbatim>\<open>text/template\<close>: \<^verbatim>\<open>template.New(name).Parse(text)\<close> and the execution of a
  parsed template on the data, which yields the bytes written to the output before it
  stopped and the error it stopped with, if any.
\<close>

record 't env =
  cwd :: path
  templateFS :: "string \<Rightarrow> string option"
  Parse :: "string \<Rightarrow> string \<Rightarrow> error + 't"
  Execute :: "'t \<Rightarrow> (string \<Rightarrow> string option) \<Rightarrow> string \<times> error option"

subsection \<open>A fragment of \<^verbatim>\<open>text/template\<close>\<close>

text \<open>
  Package \<^verbatim>\<open>text/template\<close> is Go's library, not part of the repository. The
  theorems about \<^verbatim>\<open>generate\<close> hold for every \<^typ>\<open>'t env\<close>. For concrete runs, and
  for the question of what a reference to a missing key does, this is the library on the
  templates that consist of literal text and field references \<^verbatim>\<open>{{.A}}\<close> or
  \<^verbatim>\<open>{{.A.B}}\<close> (identifiers of ASCII letters, digits and \<^verbatim>\<open>_\<close>, not starting
  with a digit; white space around the reference), executed on a
  \<^verbatim>\<open>map[string]string\<close> with the default option \<^verbatim>\<open>missingkey=default\<close> (the
  source sets no option): a key of the map prints its value, a missing key prints
  \<^verbatim>\<open><no value>\<close>, a field of a string value is an error of the execution, and text
  is copied. Output is written as execution goes, so an error leaves what was written
  before it. The messages are the library's: a parse error names the template and the
  line; an execution error names the template, the line and the byte column of the
  node, and shows the node. Every other action is outside the
  fragment, and so is a template whose name needs escaping when quoted:
  \<^verbatim>\<open>parse_template\<close> answers them with an error of its own, which is not the
  library's answer; the environments below embed templates of the fragment only.
\<close>

datatype tnode = TextNode string | FieldNode nat "string list"

text \<open>A parsed template: its name, its text, and its nodes.\<close>

record parsed =
  tmpl_name :: string
  tmpl_text :: string
  tmpl_nodes :: "tnode list"

fun find_sub :: "string \<Rightarrow> string \<Rightarrow> (string \<times> string) option" where
  "find_sub pat [] = (if pat = [] then Some ([], []) else None)"
| "find_sub pat (c # cs) =
     (if prefix pat (c # cs) then Some ([], drop (length pat) (c # cs))
      else (case find_sub pat cs of None \<Rightarrow> None | Some (a, b) \<Rightarrow> Some (c # a, b)))"

definition ident_char :: "char \<Rightarrow> bool" where
  "ident_char c =
     (c \<in> set ''abcdefghijklmnopqrstuvwxyzABCDEFGHIJKLMNOPQRSTUVWXYZ0123456789_'')"

definition ident_ok :: "string \<Rightarrow> bool" where
  "ident_ok i = (i \<noteq> [] \<and> list_all ident_char i \<and> hd i \<notin> set ''0123456789'')"

definition action_spaces :: "string list" where
  "action_spaces = [[CHR 0x20], [CHR 0x09], [CHR 0x0D], [CHR 0x0A]]"

text \<open>
  The field reference in the body of an action that starts at byte \<open>pos\<close> of the
  text. The position of the node is the one that the parser gives it: of the field,
  and for a chain \<^verbatim>\<open>.A.B\<close> of its second element.
\<close>

definition parse_action :: "nat \<Rightarrow> string \<Rightarrow> tnode option" where
  "parse_action pos body =
     (let lead = trim_left action_spaces body;
          b = rev (trim_left action_spaces (rev lead))
      in case b of
           [] \<Rightarrow> None
         | c # cs \<Rightarrow>
             (let ids = split_on (CHR ''.'') cs
              in if c = CHR ''.'' \<and> list_all ident_ok ids
                 then Some (FieldNode
                        (pos + (length body - length lead)
                         + (if 1 < length ids then 1 + length (hd ids) else 0)) ids)
                 else None))"

definition text_nodes :: "string \<Rightarrow> tnode list" where
  "text_nodes t = (if t = [] then [] else [TextNode t])"

text \<open>Decimal numerals, and the line and the byte column of a position in a text.\<close>

fun dec :: "nat \<Rightarrow> string" where
  "dec n = (if n < 10 then [char_of (48 + n)] else dec (n div 10) @ [char_of (48 + n mod 10)])"

definition line_of :: "string \<Rightarrow> nat \<Rightarrow> nat" where
  "line_of src pos = 1 + count_list (take pos src) (CHR 0x0A)"

definition col_of :: "string \<Rightarrow> nat \<Rightarrow> nat" where
  "col_of src pos = length (takeWhile (\<lambda>c. c \<noteq> CHR 0x0A) (rev (take pos src)))"

text \<open>
  Parsing the rest \<open>s\<close> of the text \<open>src\<close> from byte \<open>off\<close> on. An action that
  is not closed is the library's \<^verbatim>\<open>unclosed action\<close> when what is there is a field
  reference on one line.
\<close>

function parse_nodes :: "string \<Rightarrow> string \<Rightarrow> nat \<Rightarrow> string \<Rightarrow> error + tnode list" where
  "parse_nodes name src off s =
     (case find_sub ''{{'' s of
        None \<Rightarrow> Inr (text_nodes s)
      | Some (lit, rest) \<Rightarrow>
          (case find_sub ''}}'' rest of
             None \<Rightarrow>
               (if parse_action 0 rest \<noteq> None \<and> CHR 0x0A \<notin> set rest
                then Inl (TemplateError (''template: '' @ name @ '':''
                       @ dec (line_of src (off + length lit)) @ '': unclosed action''))
                else Inl (TemplateError (''template: '' @ name @ '': action outside the fragment'')))
           | Some (body, rest') \<Rightarrow>
               (case parse_action (off + length lit + 2) body of
                  None \<Rightarrow> Inl (TemplateError (''template: '' @ name @ '': action outside the fragment''))
                | Some n \<Rightarrow>
                    (case parse_nodes name src (off + length lit + 2 + length body + 2) rest' of
                       Inl err \<Rightarrow> Inl err
                     | Inr ns \<Rightarrow> Inr (text_nodes lit @ n # ns)))))"
  by pat_completeness auto
termination
proof (relation "measure (\<lambda>(name, src, off, s). length s)")
  show "wf (measure (\<lambda>(name, src, off, s). length s))" by simp
next
  fix name src s :: string and off :: nat and x2 lit rest x2a body rest' n
  assume a: "find_sub ''{{'' s = Some x2" "(lit, rest) = x2"
    "find_sub ''}}'' rest = Some x2a" "(body, rest') = x2a"
  have shorter: "length b < length t" if "find_sub pat t = Some (a, b)" and "pat \<noteq> []"
    for pat t a b
    using that
  proof (induction t arbitrary: a b)
    case Nil
    then show ?case by simp
  next
    case (Cons c cs)
    show ?case
    proof (cases "prefix pat (c # cs)")
      case True
      with Cons.prems show ?thesis by (cases pat) auto
    next
      case False
      with Cons.prems obtain a' where "find_sub pat cs = Some (a', b)"
        by (auto split: option.splits)
      from Cons.IH [OF this Cons.prems(2)] show ?thesis by simp
    qed
  qed
  from a have "length rest < length s" "length rest' < length rest"
    using shorter [of "''{{''" s lit rest] shorter [of "''}}''" rest body rest'] by auto
  then show "((name, src, off + length lit + 2 + length body + 2, rest'), (name, src, off, s))
      \<in> measure (\<lambda>(name, src, off, s). length s)"
    by simp
qed

definition parse_template :: "string \<Rightarrow> string \<Rightarrow> error + parsed" where
  "parse_template name src =
     (case parse_nodes name src 0 src of
        Inl err \<Rightarrow> Inl err
      | Inr ns \<Rightarrow> Inr \<lparr>tmpl_name = name, tmpl_text = src, tmpl_nodes = ns\<rparr>)"

text \<open>
  The value of a field reference, or the error of the execution: its message starts
  with the template, the line and the column of the node, the quoted name of the
  template that executes, and the node as the library prints it.
\<close>

definition node_context :: "string list \<Rightarrow> string" where
  "node_context ids = concat (map (\<lambda>i. ''.'' @ i) ids)"

definition eval_field ::
  "string \<Rightarrow> string \<Rightarrow> nat \<Rightarrow> (string \<Rightarrow> string option) \<Rightarrow> string list \<Rightarrow> error + string" where
  "eval_field name src pos data ids =
     (case ids of
        [] \<Rightarrow> Inr ''''
      | k # rest \<Rightarrow>
          (case data k of
             None \<Rightarrow> Inr ''<no value>''
           | Some v \<Rightarrow>
               (case rest of
                  [] \<Rightarrow> Inr v
                | f # _ \<Rightarrow>
                    Inl (TemplateError
                      (''template: '' @ name @ '':'' @ dec (line_of src pos) @ '':''
                       @ dec (col_of src pos) @ '': executing '' @ [CHR 0x22] @ name @ [CHR 0x22]
                       @ '' at <'' @ node_context ids @ ''>: can't evaluate field '' @ f
                       @ '' in type string'')))))"

fun exec_nodes ::
  "string \<Rightarrow> string \<Rightarrow> tnode list \<Rightarrow> (string \<Rightarrow> string option) \<Rightarrow> string
     \<Rightarrow> string \<times> error option" where
  "exec_nodes name src [] data out = (out, None)"
| "exec_nodes name src (TextNode t # ns) data out = exec_nodes name src ns data (out @ t)"
| "exec_nodes name src (FieldNode pos ids # ns) data out =
     (case eval_field name src pos data ids of
        Inl err \<Rightarrow> (out, Some err)
      | Inr v \<Rightarrow> exec_nodes name src ns data (out @ v))"

definition fragment_env :: "path \<Rightarrow> (string \<times> string) list \<Rightarrow> parsed env" where
  "fragment_env wd templates =
     \<lparr>cwd = wd, templateFS = map_of templates, Parse = parse_template,
      Execute = (\<lambda>t data. exec_nodes (tmpl_name t) (tmpl_text t) (tmpl_nodes t) data '''')\<rparr>"

subsection \<open>\<^verbatim>\<open>generate\<close> and its helpers\<close>

definition dirs :: "string list" where
  "dirs =
    [''cmd'',
     ''commons/constants'',
     ''commons/error'',
     ''commons/utils'',
     ''config/constants'',
     ''config/env'',
     ''config/init'',
     ''recievers'',
     ''services/serviceName/service_init'',
     ''services/serviceName/data'',
     ''services/serviceName/internal'',
     ''services/serviceName/routes'',
     ''services/serviceName/utils'']"

definition gomod_content :: "string \<Rightarrow> string" where
  "gomod_content module = ''module '' @ module @ NL @ NL @ ''go 1.22.0'' @ NL"

definition writeGoMod :: "path \<Rightarrow> string \<Rightarrow> state \<Rightarrow> error option \<times> state" where
  "writeGoMod root module s = WriteFile (Join root ''go.mod'') (gomod_content module) s"

definition makefile_content :: "string \<Rightarrow> string" where
  "makefile_content port =
     ''PORT ?= '' @ port @ NL @
     NL @
     ''run:'' @ NL @
     TAB @ ''go run ./cmd/main.go'' @ NL @
     NL @
     ''build:'' @ NL @
     TAB @ ''go build -o bin/app ./cmd/main.go'' @ NL @
     NL @
     ''test:'' @ NL @
     TAB @ ''go test ./...'' @ NL @
     NL @
     ''setup:'' @ NL @
     TAB @ ''go mod tidy'' @ NL"

definition writeMakefile :: "path \<Rightarrow> string \<Rightarrow> state \<Rightarrow> error option \<times> state" where
  "writeMakefile root port s = WriteFile (Join root ''Makefile'') (makefile_content port) s"

text \<open>The map \<^verbatim>\<open>data\<close> of \<^verbatim>\<open>writeTemplate\<close>.\<close>

definition template_data :: "Config \<Rightarrow> string \<Rightarrow> string option" where
  "template_data cfg = [''MODULE'' \<mapsto> ModuleName cfg, ''PORT'' \<mapsto> Port cfg]"

text \<open>
  \<^verbatim>\<open>writeTemplate\<close>. The deferred \<^verbatim>\<open>f.Close()\<close> changes nothing in the model.
\<close>

definition writeTemplate ::
  "'t env \<Rightarrow> path \<Rightarrow> string \<Rightarrow> string \<Rightarrow> Config \<Rightarrow> state \<Rightarrow> error option \<times> state" where
  "writeTemplate env root outputPath templateName cfg s =
     (case templateFS env (''templates/'' @ templateName) of
        None \<Rightarrow> (Some (PathError ''open'' (''templates/'' @ templateName) ErrNotExist), s)
      | Some tmplBytes \<Rightarrow>
          (case Parse env templateName tmplBytes of
             Inl err \<Rightarrow> (Some err, s)
           | Inr tmpl \<Rightarrow>
               (let outPath = Join root outputPath;
                    s1 = snd (MkdirAll (Dir_of outPath) s)
                in case Create outPath s1 of
                     (Some err, s2) \<Rightarrow> (Some err, s2)
                   | (None, s2) \<Rightarrow>
                       (case Execute env tmpl (template_data cfg) of
                          (output, err) \<Rightarrow> (err, Write outPath output s2)))))"

text \<open>The clean loop of \<^verbatim>\<open>generate\<close> (lines 117 to 122); both errors are dropped.\<close>

definition clean_root :: "path \<Rightarrow> state \<Rightarrow> state" where
  "clean_root rootAbs s =
     (case ReadDir rootAbs s of
        ((entries, _), s1) \<Rightarrow> foldl (\<lambda>t e. snd (RemoveAll (Join rootAbs e) t)) s1 entries)"

text \<open>
  The body of the loop over \<^verbatim>\<open>dirs\<close> (lines 125 to 129), and the loop; the errors
  of \<^verbatim>\<open>os.MkdirAll\<close> and \<^verbatim>\<open>os.WriteFile\<close> are dropped.
\<close>

definition make_dir :: "Config \<Rightarrow> path \<Rightarrow> state \<Rightarrow> string \<Rightarrow> state" where
  "make_dir cfg rootAbs s dir =
     (let path = Join rootAbs dir;
          s1 = snd (MkdirAll path s)
      in if Gitkeep cfg then snd (WriteFile (Join path ''.gitkeep'') '''' s1) else s1)"

definition make_dirs :: "Config \<Rightarrow> path \<Rightarrow> state \<Rightarrow> state" where
  "make_dirs cfg rootAbs s = foldl (make_dir cfg rootAbs) s dirs"

text \<open>The six checked writes of \<^verbatim>\<open>generate\<close> (lines 132 to 151).\<close>

definition write_files :: "'t env \<Rightarrow> Config \<Rightarrow> path \<Rightarrow> state \<Rightarrow> error option \<times> state" where
  "write_files env cfg rootAbs s =
     (case writeGoMod rootAbs (ModuleName cfg) s of
        (Some err, s1) \<Rightarrow> (Some err, s1)
      | (None, s1) \<Rightarrow>
     (case writeMakefile rootAbs (Port cfg) s1 of
        (Some err, s2) \<Rightarrow> (Some err, s2)
      | (None, s2) \<Rightarrow>
     (case writeTemplate env rootAbs ''cmd/main.go'' ''main.go.tmpl'' cfg s2 of
        (Some err, s3) \<Rightarrow> (Some err, s3)
      | (None, s3) \<Rightarrow>
     (case writeTemplate env rootAbs ''services/serviceName/routes/router.go'' ''router.go.tmpl'' cfg s3 of
        (Some err, s4) \<Rightarrow> (Some err, s4)
      | (None, s4) \<Rightarrow>
     (case writeTemplate env rootAbs ''config/init/serverConfig.go'' ''serverConfig.go.tmpl'' cfg s4 of
        (Some err, s5) \<Rightarrow> (Some err, s5)
      | (None, s5) \<Rightarrow>
     (case writeTemplate env rootAbs ''commons/utils/logger.go'' ''logger.go.tmpl'' cfg s5 of
        (Some err, s6) \<Rightarrow> (Some err, s6)
      | (None, s6) \<Rightarrow> (None, s6)))))))"

definition generate :: "'t env \<Rightarrow> Config \<Rightarrow> state \<Rightarrow> error option \<times> state" where
  "generate env cfg s =
     (case MkdirAll_name (cwd env) (Root cfg) s of
        (Some err, s1) \<Rightarrow> (Some err, s1)
      | (None, s1) \<Rightarrow>
          (let rootAbs = Abs (cwd env) (Root cfg);
               s2 = (if Clean cfg then clean_root rootAbs s1 else s1);
               s3 = make_dirs cfg rootAbs s2
           in write_files env cfg rootAbs s3))"

text \<open>
  The directory manifest and the outputs of the templates as paths below the root:
  what \<^verbatim>\<open>filepath.Join\<close> makes of the names (lemmas \<open>Join_dirs\<close> and
  \<open>Join_outputs\<close> below).
\<close>

definition dir_paths :: "path list" where
  "dir_paths =
    [[''cmd''],
     [''commons'', ''constants''],
     [''commons'', ''error''],
     [''commons'', ''utils''],
     [''config'', ''constants''],
     [''config'', ''env''],
     [''config'', ''init''],
     [''recievers''],
     [''services'', ''serviceName'', ''service_init''],
     [''services'', ''serviceName'', ''data''],
     [''services'', ''serviceName'', ''internal''],
     [''services'', ''serviceName'', ''routes''],
     [''services'', ''serviceName'', ''utils'']]"

text \<open>The template manifest: the arguments of the four calls of \<^verbatim>\<open>writeTemplate\<close>, in order.\<close>

definition template_manifest :: "(string \<times> string) list" where
  "template_manifest =
    [(''cmd/main.go'', ''main.go.tmpl''),
     (''services/serviceName/routes/router.go'', ''router.go.tmpl''),
     (''config/init/serverConfig.go'', ''serverConfig.go.tmpl''),
     (''commons/utils/logger.go'', ''logger.go.tmpl'')]"

text \<open>
  Rendering a list of manifest entries in order, stopping at the first error, as the
  chain of \<^verbatim>\<open>if err := writeTemplate(...); err != nil { return err }\<close> does.
\<close>

fun render_all ::
  "'t env \<Rightarrow> Config \<Rightarrow> path \<Rightarrow> (string \<times> string) list \<Rightarrow> state \<Rightarrow> error option \<times> state" where
  "render_all env cfg rootAbs [] s = (None, s)"
| "render_all env cfg rootAbs ((outputPath, templateName) # rest) s =
     (case writeTemplate env rootAbs outputPath templateName cfg s of
        (Some err, s') \<Rightarrow> (Some err, s')
      | (None, s') \<Rightarrow> render_all env cfg rootAbs rest s')"

text \<open>Steps 1 to 4 of \<^verbatim>\<open>generate\<close>: everything before the first template.\<close>

definition prepare :: "'t env \<Rightarrow> Config \<Rightarrow> state \<Rightarrow> error option \<times> state" where
  "prepare env cfg s =
     (case MkdirAll_name (cwd env) (Root cfg) s of
        (Some err, s1) \<Rightarrow> (Some err, s1)
      | (None, s1) \<Rightarrow>
          (let rootAbs = Abs (cwd env) (Root cfg);
               s2 = (if Clean cfg then clean_root rootAbs s1 else s1);
               s3 = make_dirs cfg rootAbs s2
           in case writeGoMod rootAbs (ModuleName cfg) s3 of
                (Some err, s4) \<Rightarrow> (Some err, s4)
              | (None, s4) \<Rightarrow> writeMakefile rootAbs (Port cfg) s4))"

text \<open>
  The changes a sequence of calls may make: below, \<open>F\<close> are the paths where a regular
  file may be written and \<open>D\<close> the paths where a directory may be created. Nothing is
  removed, a directory is never replaced, and a directory appears only where nothing was.
\<close>

definition chg :: "path set \<Rightarrow> path set \<Rightarrow> state \<Rightarrow> state \<Rightarrow> bool" where
  "chg F D s s' =
     (\<forall>q. lookup s' q = lookup s q
        \<or> (q \<in> F \<and> is_file (lookup s' q) \<and> lookup s q \<noteq> Some Dir)
        \<or> (q \<in> D \<and> lookup s q = None \<and> lookup s' q = Some Dir))"

definition make_path :: "Config \<Rightarrow> state \<Rightarrow> path \<Rightarrow> state" where
  "make_path cfg s p =
     (let s1 = snd (MkdirAll p s)
      in if Gitkeep cfg then snd (WriteFile (p @ [''.gitkeep'']) '''' s1) else s1)"

definition make_paths :: "Config \<Rightarrow> state \<Rightarrow> path list \<Rightarrow> state" where
  "make_paths cfg s ps = foldl (make_path cfg) s ps"

definition marker_events :: "Config \<Rightarrow> path \<Rightarrow> event list" where
  "marker_events cfg p =
     MkdirAllEv p # (if Gitkeep cfg then [WriteFileEv (p @ [''.gitkeep'']) ''''] else [])"

definition out_paths :: "path list" where
  "out_paths =
    [[''cmd'', ''main.go''],
     [''services'', ''serviceName'', ''routes'', ''router.go''],
     [''config'', ''init'', ''serverConfig.go''],
     [''commons'', ''utils'', ''logger.go'']]"

text \<open>
  A template is fine for a configuration when it is embedded, parses, and executes
  without an error.
\<close>

definition template_ok :: "'t env \<Rightarrow> Config \<Rightarrow> string \<Rightarrow> bool" where
  "template_ok env cfg name =
     (case templateFS env (''templates/'' @ name) of
        None \<Rightarrow> False
      | Some src \<Rightarrow>
          (case Parse env name src of
             Inl err \<Rightarrow> False
           | Inr tmpl \<Rightarrow> snd (Execute env tmpl (template_data cfg)) = None))"

text \<open>The names of the files that \<^verbatim>\<open>generate\<close> writes.\<close>

definition file_names :: "string list" where
  "file_names =
     [''go.mod'', ''Makefile'', ''main.go'', ''router.go'', ''serverConfig.go'', ''logger.go'',
      ''.gitkeep'']"

text \<open>
  A concrete run: the working directory \<^verbatim>\<open>/w\<close> holds a directory \<^verbatim>\<open>out\<close> with
  a file \<^verbatim>\<open>foo.txt\<close>; four small templates are embedded; the tool is called with
  \<^verbatim>\<open>-r out -m github.com/acme/widget -p 9090 -g -c\<close>.
\<close>

definition example_templates :: "(string \<times> string) list" where
  "example_templates =
    [(''templates/main.go.tmpl'', ''package main // {{.MODULE}} on {{ .PORT }}''),
     (''templates/router.go.tmpl'', ''package routes''),
     (''templates/serverConfig.go.tmpl'', ''port {{.PORT}}''),
     (''templates/logger.go.tmpl'', ''module {{.MODULE}}'')]"

definition example_env :: "parsed env" where
  "example_env = fragment_env [''w''] example_templates"

definition example_fs :: state where
  "example_fs =
     \<lparr>files = [([''w''], Dir), ([''w'', ''out''], Dir),
               ([''w'', ''out'', ''foo.txt''], File ''hello'')],
      trace = []\<rparr>"

definition example_flags :: Flags where
  "example_flags =
     \<lparr>flag_i = False, flag_version = False, flag_r = ''out'',
      flag_m = ''github.com/acme/widget'', flag_p = ''9090'', flag_g = True, flag_c = True\<rparr>"

definition example_cfg :: Config where
  "example_cfg =
     \<lparr>Root = ''out'', ModuleName = ''github.com/acme/widget'', Port = ''9090'',
      Gitkeep = True, Clean = True\<rparr>"

text \<open>The example with the last two templates left out of the embedded files.\<close>

definition example_env_missing :: "parsed env" where
  "example_env_missing = fragment_env [''w''] (take 2 example_templates)"

text \<open>
  A template with an unclosed action, and one whose second action takes a field of a
  string.
\<close>

definition example_env_bad :: "parsed env" where
  "example_env_bad =
     fragment_env [''w'']
       [(''templates/bad.tmpl'', ''module {{.MODULE''),
        (''templates/part.tmpl'', ''port {{.PORT}} of {{.MODULE.x}} tail'')]"

text \<open>
  Everything \<^verbatim>\<open>generate\<close> may create below the root, relative to it: the
  directories of the manifest with the directories above them, the markers, the two
  static files and the outputs of the templates.
\<close>

definition generated_paths :: "path list" where
  "generated_paths =
     concat (map (\<lambda>d. tl (prefixes d)) dir_paths)
     @ map (\<lambda>d. d @ [''.gitkeep'']) dir_paths
     @ [[''go.mod''], [''Makefile'']]
     @ out_paths"

text \<open>
  The state in which the loop over \<^verbatim>\<open>dirs\<close> starts: the root is created and, with
  \<^verbatim>\<open>cfg.Clean\<close>, emptied.
\<close>

definition before_dirs :: "'t env \<Rightarrow> Config \<Rightarrow> state \<Rightarrow> state" where
  "before_dirs env cfg s =
     (if Clean cfg
      then clean_root (Abs (cwd env) (Root cfg)) (snd (MkdirAll_name (cwd env) (Root cfg) s))
      else snd (MkdirAll_name (cwd env) (Root cfg) s))"

text \<open>The paths handed to \<^verbatim>\<open>os.RemoveAll\<close> in a trace, in order.\<close>

definition removals :: "event list \<Rightarrow> path list" where
  "removals t = concat (map (\<lambda>ev. case ev of RemoveAllEv p \<Rightarrow> [p] | _ \<Rightarrow> []) t)"

text \<open>The example without the clean step.\<close>

definition example_cfg_kept :: Config where
  "example_cfg_kept = example_cfg\<lparr>Clean := False\<rparr>"

text \<open>A tree in which \<^verbatim>\<open>out/cmd/.gitkeep\<close> is a directory.\<close>

definition example_fs_marker :: state where
  "example_fs_marker =
     \<lparr>files = [([''w''], Dir), ([''w'', ''out''], Dir), ([''w'', ''out'', ''cmd''], Dir),
               ([''w'', ''out'', ''cmd'', ''.gitkeep''], Dir)],
      trace = []\<rparr>"

text \<open>A template that refers to \<^verbatim>\<open>FOO\<close>, which is not a key of the data.\<close>

definition example_env_unknown :: "parsed env" where
  "example_env_unknown =
     fragment_env [''w''] [(''templates/unknown.tmpl'', ''port {{.FOO}} open'')]"

text \<open>The example with a root name that goes through \<^verbatim>\<open>..\<close>.\<close>

definition example_cfg_dots :: Config where
  "example_cfg_dots = example_cfg\<lparr>Root := ''out/new/../go.mod/..''\<rparr>"

subsection \<open>\<^verbatim>\<open>main\<close>\<close>

record outcome =
  exit_code :: nat
  stdout :: string
  stderr :: string
  final :: state

definition version :: string where
  "version = ''1.0.0''"

text \<open>The check mark of the closing message, in UTF-8.\<close>

definition check_mark :: string where
  "check_mark = [CHR 0xE2, CHR 0x9C, CHR 0x93]"

definition main :: "'t env \<Rightarrow> Flags \<Rightarrow> string \<Rightarrow> state \<Rightarrow> outcome" where
  "main env fl stdin0 s =
     (if flag_version fl
      then \<lparr>exit_code = 0, stdout = ''hexagen version '' @ version @ NL, stderr = '''', final = s\<rparr>
      else (case main_config fl stdin0 of
        (cfg, out) \<Rightarrow>
          (case generate env cfg s of
             (Some err, s') \<Rightarrow>
               \<lparr>exit_code = 1, stdout = out, stderr = ''Error: '' @ Error err @ NL, final = s'\<rparr>
           | (None, s') \<Rightarrow>
               \<lparr>exit_code = 0,
                stdout = out @ NL @ check_mark @ '' Done! Your project is ready.'' @ NL
                  @ NL @ ''Next steps:'' @ NL
                  @ ''  cd '' @ Root cfg @ NL
                  @ ''  make run'' @ NL,
                stderr = '''', final = s'\<rparr>)))"

section \<open>Properties of the model\<close>

subsection \<open>Reading lines\<close>

lemma ReadString_line:
  "delim \<notin> set l \<Longrightarrow> ReadString delim (l @ delim # rest) = (l @ [delim], rest)"
proof -
  assume a: "delim \<notin> set l"
  then have "dropWhile (\<lambda>c. c \<noteq> delim) (l @ delim # rest) = delim # rest"
    by (induction l) auto
  moreover from a have "takeWhile (\<lambda>c. c \<noteq> delim) (l @ delim # rest) = l"
    by (induction l) auto
  ultimately show ?thesis by (simp add: ReadString_def)
qed

lemma prompts_lines:
  assumes "CHR 0x0A \<notin> set l1" "CHR 0x0A \<notin> set l2" "CHR 0x0A \<notin> set l3"
    "CHR 0x0A \<notin> set l4" "CHR 0x0A \<notin> set l5"
  shows "fst (prompts cfg (l1 @ CHR 0x0A # l2 @ CHR 0x0A # l3 @ CHR 0x0A # l4 @ CHR 0x0A # l5 @ CHR 0x0A # rest)) =
    \<lparr>Root = answer_text (Root cfg) (l1 @ NL),
     ModuleName = answer_text (ModuleName cfg) (l2 @ NL),
     Port = answer_text (Port cfg) (l3 @ NL),
     Gitkeep = answer_bool (Gitkeep cfg) (l4 @ NL),
     Clean = answer_bool (Clean cfg) (l5 @ NL)\<rparr>"
  using assms
  by (simp add: prompts_def ReadString_line Let_def answer_text_def answer_bool_def NL_def)

subsection \<open>Path names\<close>

lemma split_on_no_delim: "d \<notin> set n \<Longrightarrow> split_on d n = [n]"
  by (induction n) auto

lemma Join_valid_name: "valid_name n \<Longrightarrow> Join r n = r @ [n]"
  by (simp add: Join_def valid_name_def split_on_no_delim clean_onto_def clean_step_def)

lemma Join_dirs: "map (Join r) dirs = map ((@) r) dir_paths"
  by (simp add: dirs_def dir_paths_def Join_def clean_onto_def clean_step_def)

lemma Join_gitkeep: "Join p ''.gitkeep'' = p @ [''.gitkeep'']"
  by (simp add: Join_def clean_onto_def clean_step_def)

lemma Join_statics:
  "Join r ''go.mod'' = r @ [''go.mod'']"
  "Join r ''Makefile'' = r @ [''Makefile'']"
  by (simp_all add: Join_def clean_onto_def clean_step_def)

lemma Join_outputs:
  "Join r ''cmd/main.go'' = r @ [''cmd'', ''main.go'']"
  "Join r ''services/serviceName/routes/router.go'' =
     r @ [''services'', ''serviceName'', ''routes'', ''router.go'']"
  "Join r ''config/init/serverConfig.go'' = r @ [''config'', ''init'', ''serverConfig.go'']"
  "Join r ''commons/utils/logger.go'' = r @ [''commons'', ''utils'', ''logger.go'']"
  by (simp_all add: Join_def clean_onto_def clean_step_def)

lemma split_on_no_slash: "\<forall>c \<in> set (split_on d n). d \<notin> set c"
  by (induction n) (auto split: list.splits)

lemma clean_step_valid:
  "list_all valid_name acc \<Longrightarrow> CHR ''/'' \<notin> set c \<Longrightarrow> list_all valid_name (clean_step acc c)"
  by (auto simp: clean_step_def valid_name_def list_all_iff dest: in_set_butlastD)

lemma clean_onto_valid:
  "list_all valid_name base \<Longrightarrow> \<forall>c \<in> set cs. CHR ''/'' \<notin> set c
     \<Longrightarrow> list_all valid_name (clean_onto base cs)"
  unfolding clean_onto_def
  by (induction cs arbitrary: base) (auto simp: clean_step_valid)

lemma Abs_valid: "list_all valid_name wd \<Longrightarrow> list_all valid_name (Abs wd name)"
  by (simp add: Abs_def clean_onto_valid split_on_no_slash)

subsection \<open>Looking up after an operation\<close>

lemma lookup_Nil [simp]: "lookup s [] = Some Dir"
  by (simp add: lookup_def)

lemma lookup_log [simp]: "lookup (log ev s) = lookup s"
  by (rule ext) (simp add: lookup_def log_def)

lemma files_log [simp]: "files (log ev s) = files s"
  by (simp add: log_def)

lemma trace_log [simp]: "trace (log ev s) = trace s @ [ev]"
  by (simp add: log_def)

lemma is_file_simps [simp]:
  "is_file None = False" "is_file (Some Dir) = False" "is_file (Some (File c)) = True"
  by (simp_all add: is_file_def)

lemma not_file_not_dir: "\<not> is_file n \<Longrightarrow> n \<noteq> Some Dir \<Longrightarrow> n = None"
  by (cases n) (auto simp: is_file_def split: node.splits)

lemma blocked_iff: "blocked s p \<longleftrightarrow> (\<exists>q. prefix q p \<and> is_file (lookup s q))"
  by (auto simp: blocked_def list_ex_iff)

lemma map_of_const: "map_of (map (\<lambda>q. (q, v)) zs) q = (if q \<in> set zs then Some v else None)"
  by (induction zs) auto

lemma find_Some_set: "find P xs = Some x \<Longrightarrow> x \<in> set xs \<and> P x"
  by (induction xs) (auto split: if_splits)

lemma find_blocked:
  "find (\<lambda>q. is_file (lookup s q)) (prefixes p) = None \<longleftrightarrow> \<not> blocked s p"
  by (auto simp: blocked_def list_ex_iff find_None_iff)

lemma fst_MkdirAll:
  "fst (MkdirAll p s) = None \<longleftrightarrow> lookup s p = Some Dir \<or> \<not> blocked s p"
proof (cases "find (\<lambda>q. is_file (lookup s q)) (prefixes p)")
  case None
  then show ?thesis using find_blocked [of s p] by (simp add: MkdirAll_def)
next
  case (Some a)
  then show ?thesis using find_blocked [of s p] by (simp add: MkdirAll_def)
qed

lemma MkdirAll_error:
  "fst (MkdirAll p s) =
     (if lookup s p = Some Dir then None
      else map_option (\<lambda>q. PathError ''mkdir'' (path_str q) ENOTDIR)
             (find (\<lambda>q. is_file (lookup s q)) (prefixes p)))"
  by (simp add: MkdirAll_def split: option.splits)

lemma lookup_MkdirAll:
  "lookup (snd (MkdirAll p s)) q =
     (if lookup s p \<noteq> Some Dir \<and> \<not> blocked s p \<and> prefix q p \<and> lookup s q = None
      then Some Dir else lookup s q)"
proof (cases "lookup s p = Some Dir")
  case True
  then show ?thesis by (simp add: MkdirAll_def)
next
  case False
  show ?thesis
  proof (cases "find (\<lambda>q. is_file (lookup s q)) (prefixes p)")
    case (Some a)
    then have "blocked s p"
      using find_blocked [of s p] by simp
    with False Some show ?thesis by (simp add: MkdirAll_def)
  next
    case None
    then have nb: "\<not> blocked s p"
      using find_blocked [of s p] by simp
    from False None nb show ?thesis
      by (auto simp: MkdirAll_def lookup_def map_add_def map_of_const split: option.splits)
  qed
qed

lemma trace_MkdirAll [simp]: "trace (snd (MkdirAll p s)) = trace s @ [MkdirAllEv p]"
  by (simp add: MkdirAll_def split: option.splits)

lemma MkdirAll_makes_dir:
  "fst (MkdirAll p s) = None \<Longrightarrow> lookup (snd (MkdirAll p s)) p = Some Dir"
proof -
  assume ok: "fst (MkdirAll p s) = None"
  show ?thesis
  proof (cases "lookup s p = Some Dir")
    case True
    then show ?thesis by (simp add: lookup_MkdirAll)
  next
    case False
    with ok have nb: "\<not> blocked s p" by (simp add: fst_MkdirAll)
    then have "\<not> is_file (lookup s p)" by (auto simp: blocked_iff)
    with False have "lookup s p = None" by (simp add: not_file_not_dir)
    with False nb show ?thesis by (simp add: lookup_MkdirAll)
  qed
qed

lemma MkdirAll_fails_unchanged:
  "fst (MkdirAll p s) \<noteq> None \<Longrightarrow> files (snd (MkdirAll p s)) = files s"
  by (auto simp: MkdirAll_def split: option.splits if_splits)

lemma open_error_None:
  "open_error p s = None \<longleftrightarrow> p \<noteq> [] \<and> lookup s p \<noteq> Some Dir \<and> lookup s (butlast p) = Some Dir"
  by (simp add: open_error_def)

lemma fst_WriteFile [simp]: "fst (WriteFile p c s) = open_error p s"
  by (simp add: WriteFile_def split: option.splits)

lemma lookup_WriteFile:
  "lookup (snd (WriteFile p c s)) q =
     (if open_error p s = None \<and> q = p then Some (File c) else lookup s q)"
proof (cases "open_error p s")
  case None
  then have "p \<noteq> []" by (simp add: open_error_None)
  with None show ?thesis by (simp add: WriteFile_def lookup_def)
next
  case (Some e)
  then show ?thesis by (simp add: WriteFile_def)
qed

lemma trace_WriteFile [simp]: "trace (snd (WriteFile p c s)) = trace s @ [WriteFileEv p c]"
  by (simp add: WriteFile_def split: option.splits)

lemma fst_Create [simp]: "fst (Create p s) = open_error p s"
  by (simp add: Create_def split: option.splits)

lemma lookup_Create:
  "lookup (snd (Create p s)) q =
     (if open_error p s = None \<and> q = p then Some (File '''') else lookup s q)"
proof (cases "open_error p s")
  case None
  then have "p \<noteq> []" by (simp add: open_error_None)
  with None show ?thesis by (simp add: Create_def lookup_def)
next
  case (Some e)
  then show ?thesis by (simp add: Create_def)
qed

lemma trace_Create [simp]: "trace (snd (Create p s)) = trace s @ [CreateEv p]"
  by (simp add: Create_def split: option.splits)

lemma lookup_Write:
  "lookup (Write p b s) q =
     (if q = p \<and> p \<noteq> []
      then Some (File ((case lookup s p of Some (File c) \<Rightarrow> c | _ \<Rightarrow> '''') @ b))
      else lookup s q)"
  by (auto simp: Write_def lookup_def)

lemma trace_Write [simp]: "trace (Write p b s) = trace s @ [WriteEv p b]"
  by (simp add: Write_def)

lemma map_of_filter_key:
  "map_of (filter (\<lambda>(k, v). P k) xs) k = (if P k then map_of xs k else None)"
  by (induction xs) auto

lemma lookup_RemoveAll:
  "lookup (snd (RemoveAll p s)) q = (if prefix p q \<and> q \<noteq> [] then None else lookup s q)"
  by (simp add: RemoveAll_def lookup_def map_of_filter_key)

lemma trace_RemoveAll [simp]: "trace (snd (RemoveAll p s)) = trace s @ [RemoveAllEv p]"
  by (simp add: RemoveAll_def)

lemma lookup_ReadDir [simp]: "lookup (snd (ReadDir d s)) = lookup s"
  by (simp add: ReadDir_def)

lemma files_ReadDir [simp]: "files (snd (ReadDir d s)) = files s"
  by (simp add: ReadDir_def)

lemma trace_ReadDir [simp]: "trace (snd (ReadDir d s)) = trace s @ [ReadDirEv d]"
  by (simp add: ReadDir_def)

lemma ReadDir_entries:
  assumes "lookup s d = Some Dir"
  shows "set (fst (fst (ReadDir d s))) = {last q |q n. (q, n) \<in> set (files s) \<and> q \<noteq> [] \<and> butlast q = d}"
  using assms by (auto simp: ReadDir_def image_iff)

subsection \<open>What a run may change\<close>

lemma chg_refl: "chg F D s s"
  by (simp add: chg_def)

lemma chg_trans:
  assumes "chg F D s s'" and "chg F D s' s''"
  shows "chg F D s s''"
  unfolding chg_def
proof
  fix q
  from assms(1) have a: "lookup s' q = lookup s q
      \<or> (q \<in> F \<and> is_file (lookup s' q) \<and> lookup s q \<noteq> Some Dir)
      \<or> (q \<in> D \<and> lookup s q = None \<and> lookup s' q = Some Dir)"
    by (simp add: chg_def)
  from assms(2) have b: "lookup s'' q = lookup s' q
      \<or> (q \<in> F \<and> is_file (lookup s'' q) \<and> lookup s' q \<noteq> Some Dir)
      \<or> (q \<in> D \<and> lookup s' q = None \<and> lookup s'' q = Some Dir)"
    by (simp add: chg_def)
  from a b show "lookup s'' q = lookup s q
      \<or> (q \<in> F \<and> is_file (lookup s'' q) \<and> lookup s q \<noteq> Some Dir)
      \<or> (q \<in> D \<and> lookup s q = None \<and> lookup s'' q = Some Dir)"
    by auto
qed

lemma chg_mono: "chg F D s s' \<Longrightarrow> F \<subseteq> F' \<Longrightarrow> D \<subseteq> D' \<Longrightarrow> chg F' D' s s'"
  unfolding chg_def by blast

lemma chg_unchanged: "chg F D s s' \<Longrightarrow> q \<notin> F \<Longrightarrow> q \<notin> D \<Longrightarrow> lookup s' q = lookup s q"
  unfolding chg_def by blast

lemma chg_keeps: "chg F D s s' \<Longrightarrow> q \<notin> F \<Longrightarrow> lookup s q = Some n \<Longrightarrow> lookup s' q = Some n"
  unfolding chg_def by (metis option.distinct(1))

lemma chg_dir: "chg F D s s' \<Longrightarrow> lookup s q = Some Dir \<Longrightarrow> lookup s' q = Some Dir"
  unfolding chg_def by (metis option.distinct(1))

lemma chg_file: "chg F D s s' \<Longrightarrow> is_file (lookup s q) \<Longrightarrow> is_file (lookup s' q)"
  unfolding chg_def by (metis is_file_simps(1))

lemma chg_file_back:
  "chg F D s s' \<Longrightarrow> q \<notin> F \<Longrightarrow> lookup s' q = Some (File c) \<Longrightarrow> lookup s q = Some (File c)"
  unfolding chg_def by (metis node.distinct(1) option.inject)

lemma chg_exists_back:
  "chg F D s s' \<Longrightarrow> q \<notin> F \<Longrightarrow> q \<notin> D \<Longrightarrow> lookup s' q \<noteq> None \<Longrightarrow> lookup s q \<noteq> None"
  unfolding chg_def by metis

lemma chg_blocked: "chg F D s s' \<Longrightarrow> blocked s p \<Longrightarrow> blocked s' p"
  by (auto simp: blocked_iff dest: chg_file)

lemma chg_blocked_back:
  assumes "chg F D s s'" and "blocked s' p" and "\<And>q. q \<in> F \<Longrightarrow> \<not> prefix q p"
  shows "blocked s p"
proof -
  from assms(2) obtain q where q: "prefix q p" "is_file (lookup s' q)"
    by (auto simp: blocked_iff)
  then have "q \<notin> F" using assms(3) by blast
  moreover from q(2) obtain c where "lookup s' q = Some (File c)"
    by (cases "lookup s' q") (auto simp: is_file_def split: node.splits)
  ultimately have "lookup s q = Some (File c)" using assms(1) by (simp add: chg_file_back)
  with q(1) show ?thesis by (auto simp: blocked_iff)
qed

lemma chg_log: "chg F D s (log ev s)"
  by (simp add: chg_def)

lemma chg_MkdirAll: "chg {} {q. prefix q p} s (snd (MkdirAll p s))"
  by (simp add: chg_def lookup_MkdirAll)

lemma chg_WriteFile: "chg {p} {} s (snd (WriteFile p c s))"
  by (simp add: chg_def lookup_WriteFile open_error_None)

lemma chg_Create: "chg {p} {} s (snd (Create p s))"
  by (simp add: chg_def lookup_Create open_error_None)

lemma chg_Write: "lookup s p \<noteq> Some Dir \<Longrightarrow> chg {p} {} s (Write p b s)"
  by (simp add: chg_def lookup_Write)

lemma Create_ok_file: "fst (Create p s) = None \<Longrightarrow> lookup (snd (Create p s)) p = Some (File '''')"
  by (simp add: lookup_Create)

lemma chg_writeTemplate:
  "chg {Join r out} {q. prefix q (Dir_of (Join r out))} s
     (snd (writeTemplate env r out name cfg s))"
proof -
  let ?F = "{Join r out}" and ?D = "{q. prefix q (Dir_of (Join r out))}"
  let ?s1 = "snd (MkdirAll (Dir_of (Join r out)) s)"
  let ?s2 = "snd (Create (Join r out) ?s1)"
  have 1: "chg ?F ?D s ?s1" by (rule chg_mono [OF chg_MkdirAll]) auto
  have 2: "chg ?F ?D ?s1 ?s2" by (rule chg_mono [OF chg_Create]) auto
  have 12: "chg ?F ?D s ?s2" by (rule chg_trans [OF 1 2])
  have 3: "chg ?F ?D s (Write (Join r out) b ?s2)" if "fst (Create (Join r out) ?s1) = None" for b
  proof -
    from that have "lookup ?s2 (Join r out) \<noteq> Some Dir" by (simp add: lookup_Create)
    then have "chg ?F ?D ?s2 (Write (Join r out) b ?s2)"
      by (intro chg_mono [OF chg_Write]) auto
    with 12 show ?thesis by (rule chg_trans)
  qed
  show ?thesis
  proof (cases "templateFS env (''templates/'' @ name)")
    case None
    then show ?thesis by (simp add: writeTemplate_def chg_refl)
  next
    case (Some src)
    show ?thesis
    proof (cases "Parse env name src")
      case (Inl e)
      with Some show ?thesis by (simp add: writeTemplate_def chg_refl)
    next
      case (Inr t)
      show ?thesis
      proof (cases "open_error (Join r out) ?s1")
        case None
        then have "fst (Create (Join r out) ?s1) = None" by simp
        from 3 [OF this] Some Inr None show ?thesis
          by (simp add: writeTemplate_def Let_def case_prod_beta)
      next
        case (Some e)
        with \<open>templateFS env (''templates/'' @ name) = Some src\<close> Inr 12
        show ?thesis by (simp add: writeTemplate_def Let_def case_prod_beta)
      qed
    qed
  qed
qed

lemma chg_make_dir:
  "chg (if Gitkeep cfg then {Join (Join r d) ''.gitkeep''} else {}) {q. prefix q (Join r d)} s
     (make_dir cfg r s d)"
proof (cases "Gitkeep cfg")
  case True
  have 1: "chg {Join (Join r d) ''.gitkeep''} {q. prefix q (Join r d)} s (snd (MkdirAll (Join r d) s))"
    by (rule chg_mono [OF chg_MkdirAll]) auto
  have 2: "chg {Join (Join r d) ''.gitkeep''} {q. prefix q (Join r d)} (snd (MkdirAll (Join r d) s))
      (snd (WriteFile (Join (Join r d) ''.gitkeep'') '''' (snd (MkdirAll (Join r d) s))))"
    by (rule chg_mono [OF chg_WriteFile]) auto
  from True chg_trans [OF 1 2] show ?thesis by (simp add: make_dir_def Let_def)
next
  case False
  then show ?thesis by (simp add: make_dir_def Let_def chg_MkdirAll)
qed

subsection \<open>The loop over the directory manifest\<close>

lemma chg_not_dir:
  assumes "chg F D s s'" and "q \<notin> D" and "lookup s q \<noteq> Some Dir"
  shows "lookup s' q \<noteq> Some Dir"
proof -
  from assms(1) have "lookup s' q = lookup s q
      \<or> (q \<in> F \<and> is_file (lookup s' q) \<and> lookup s q \<noteq> Some Dir)
      \<or> (q \<in> D \<and> lookup s q = None \<and> lookup s' q = Some Dir)"
    by (simp add: chg_def)
  with assms(2,3) show ?thesis by auto
qed

lemma make_dir_path: "make_dir cfg r s d = make_path cfg s (Join r d)"
  by (simp add: make_dir_def make_path_def Join_gitkeep Let_def)

lemma make_dirs_paths: "make_dirs cfg r s = make_paths cfg s (map ((@) r) dir_paths)"
proof -
  have "foldl (make_dir cfg r) s ds = foldl (make_path cfg) s (map (Join r) ds)" for ds
    by (induction ds arbitrary: s) (simp_all add: make_dir_path)
  then show ?thesis by (simp add: make_dirs_def make_paths_def Join_dirs)
qed

lemma make_paths_Nil [simp]: "make_paths cfg s [] = s"
  by (simp add: make_paths_def)

lemma make_paths_Cons [simp]: "make_paths cfg s (p # ps) = make_paths cfg (make_path cfg s p) ps"
  by (simp add: make_paths_def)

lemma make_paths_append [simp]:
  "make_paths cfg s (ps @ qs) = make_paths cfg (make_paths cfg s ps) qs"
  by (simp add: make_paths_def)

lemma chg_make_path:
  "chg (if Gitkeep cfg then {p @ [''.gitkeep'']} else {}) {q. prefix q p} s (make_path cfg s p)"
proof (cases "Gitkeep cfg")
  case True
  have 1: "chg {p @ [''.gitkeep'']} {q. prefix q p} s (snd (MkdirAll p s))"
    by (rule chg_mono [OF chg_MkdirAll]) auto
  have 2: "chg {p @ [''.gitkeep'']} {q. prefix q p} (snd (MkdirAll p s))
      (snd (WriteFile (p @ [''.gitkeep'']) '''' (snd (MkdirAll p s))))"
    by (rule chg_mono [OF chg_WriteFile]) auto
  from True chg_trans [OF 1 2] show ?thesis by (simp add: make_path_def Let_def)
next
  case False
  then show ?thesis by (simp add: make_path_def Let_def chg_MkdirAll)
qed

lemma chg_make_paths:
  "chg {p @ [''.gitkeep''] |p. Gitkeep cfg \<and> p \<in> set ps} {q. \<exists>p \<in> set ps. prefix q p} s
     (make_paths cfg s ps)"
proof (induction ps arbitrary: s)
  case Nil
  show ?case by (simp add: chg_refl)
next
  case (Cons p ps)
  let ?F = "{p' @ [''.gitkeep''] |p'. Gitkeep cfg \<and> p' \<in> set (p # ps)}"
  let ?D = "{q. \<exists>p' \<in> set (p # ps). prefix q p'}"
  have 1: "chg ?F ?D s (make_path cfg s p)"
    by (rule chg_mono [OF chg_make_path]) auto
  have 2: "chg ?F ?D (make_path cfg s p) (make_paths cfg (make_path cfg s p) ps)"
    by (rule chg_mono [OF Cons.IH]) auto
  from chg_trans [OF 1 2] show ?case by simp
qed

lemma trace_make_path: "trace (make_path cfg s p) = trace s @ marker_events cfg p"
  by (simp add: make_path_def marker_events_def Let_def)

lemma trace_make_paths:
  "trace (make_paths cfg s ps) = trace s @ concat (map (marker_events cfg) ps)"
  by (induction ps arbitrary: s) (simp_all add: trace_make_path)

lemma make_path_dir:
  assumes "\<not> blocked s p"
  shows "lookup (make_path cfg s p) p = Some Dir"
proof -
  from assms have "fst (MkdirAll p s) = None" by (simp add: fst_MkdirAll)
  then have "lookup (snd (MkdirAll p s)) p = Some Dir" by (rule MkdirAll_makes_dir)
  then show ?thesis by (simp add: make_path_def Let_def lookup_WriteFile)
qed

lemma make_path_marker:
  assumes "Gitkeep cfg" and "\<not> blocked s p" and "lookup s (p @ [''.gitkeep'']) \<noteq> Some Dir"
  shows "lookup (make_path cfg s p) (p @ [''.gitkeep'']) = Some (File '''')"
proof -
  let ?s1 = "snd (MkdirAll p s)"
  from assms(2) have "fst (MkdirAll p s) = None" by (simp add: fst_MkdirAll)
  then have d: "lookup ?s1 p = Some Dir" by (rule MkdirAll_makes_dir)
  from assms(3) have "lookup ?s1 (p @ [''.gitkeep'']) \<noteq> Some Dir"
    by (simp add: lookup_MkdirAll)
  with d have "open_error (p @ [''.gitkeep'']) ?s1 = None" by (simp add: open_error_None)
  with assms(1) show ?thesis by (simp add: make_path_def Let_def lookup_WriteFile)
qed

lemma make_paths_dir:
  assumes "p \<in> set ps" and "\<not> blocked s p"
    and "\<And>p'. p' \<in> set ps \<Longrightarrow> \<not> prefix (p' @ [''.gitkeep'']) p"
  shows "lookup (make_paths cfg s ps) p = Some Dir"
proof -
  from assms(1) obtain pre post where ps: "ps = pre @ p # post"
    by (auto dest: split_list)
  let ?a = "make_paths cfg s pre"
  have c: "chg {p' @ [''.gitkeep''] |p'. Gitkeep cfg \<and> p' \<in> set pre} {q. \<exists>p' \<in> set pre. prefix q p'} s ?a"
    by (rule chg_make_paths)
  have f: "\<not> prefix q p" if "q \<in> {p' @ [''.gitkeep''] |p'. Gitkeep cfg \<and> p' \<in> set pre}" for q
    using that assms(3) ps by auto
  have "blocked ?a p \<Longrightarrow> blocked s p"
    by (rule chg_blocked_back [OF c]) (use f in auto)
  with assms(2) have "\<not> blocked ?a p" by blast
  then have "lookup (make_path cfg ?a p) p = Some Dir" by (rule make_path_dir)
  then have "lookup (make_paths cfg (make_path cfg ?a p) post) p = Some Dir"
    by (rule chg_dir [OF chg_make_paths])
  with ps show ?thesis by simp
qed

lemma make_paths_marker:
  assumes "Gitkeep cfg" and "p \<in> set ps" and "\<not> blocked s p"
    and "lookup s (p @ [''.gitkeep'']) \<noteq> Some Dir"
    and "\<And>p'. p' \<in> set ps \<Longrightarrow> \<not> prefix (p' @ [''.gitkeep'']) p"
    and "\<And>p'. p' \<in> set ps \<Longrightarrow> \<not> prefix (p @ [''.gitkeep'']) p'"
  shows "lookup (make_paths cfg s ps) (p @ [''.gitkeep'']) = Some (File '''')"
proof -
  let ?m = "p @ [''.gitkeep'']"
  from assms(2) obtain pre post where ps: "ps = pre @ p # post" and last: "p \<notin> set post"
    by (auto dest: split_list_last)
  let ?a = "make_paths cfg s pre"
  let ?F = "{p' @ [''.gitkeep''] |p'. Gitkeep cfg \<and> p' \<in> set pre}"
  let ?D = "{q. \<exists>p' \<in> set pre. prefix q p'}"
  have c: "chg ?F ?D s ?a" by (rule chg_make_paths)
  have f: "\<not> prefix q p" if "q \<in> ?F" for q
    using that assms(5) ps by auto
  have "blocked ?a p \<Longrightarrow> blocked s p"
    by (rule chg_blocked_back [OF c]) (use f in auto)
  with assms(3) have nb: "\<not> blocked ?a p" by blast
  have "?m \<notin> ?D" using assms(6) ps by auto
  with c have "lookup ?a ?m \<noteq> Some Dir"
    using assms(4) by (rule chg_not_dir)
  with assms(1) nb have 1: "lookup (make_path cfg ?a p) ?m = Some (File '''')"
    by (rule make_path_marker)
  have 2: "?m \<notin> {p' @ [''.gitkeep''] |p'. Gitkeep cfg \<and> p' \<in> set post}"
    using last by auto
  have "lookup (make_paths cfg (make_path cfg ?a p) post) ?m = Some (File '''')"
    by (rule chg_keeps [OF chg_make_paths 2 1])
  with ps show ?thesis by simp
qed

subsection \<open>The checked writes\<close>

lemma Join_manifest:
  "map (\<lambda>(out, name). Join r out) template_manifest = map ((@) r) out_paths"
  by (simp add: template_manifest_def out_paths_def Join_outputs)

lemma Join_manifest_entry:
  "(out, name) \<in> set template_manifest \<Longrightarrow> \<exists>p \<in> set out_paths. Join r out = r @ p"
proof -
  assume "(out, name) \<in> set template_manifest"
  then have "Join r out \<in> set (map (\<lambda>(out, name). Join r out) template_manifest)"
    by force
  then show ?thesis by (auto simp: Join_manifest)
qed

lemma out_paths_dirs: "p \<in> set out_paths \<Longrightarrow> butlast p \<in> set dir_paths"
  by (auto simp: out_paths_def dir_paths_def)

lemma write_files_render:
  "write_files env cfg r s =
     (case writeGoMod r (ModuleName cfg) s of
        (Some err, s1) \<Rightarrow> (Some err, s1)
      | (None, s1) \<Rightarrow>
          (case writeMakefile r (Port cfg) s1 of
             (Some err, s2) \<Rightarrow> (Some err, s2)
           | (None, s2) \<Rightarrow> render_all env cfg r template_manifest s2))"
  by (simp add: write_files_def template_manifest_def split: prod.splits option.splits)

lemma generate_prepare:
  "generate env cfg s =
     (case prepare env cfg s of
        (Some err, s') \<Rightarrow> (Some err, s')
      | (None, s') \<Rightarrow> render_all env cfg (Abs (cwd env) (Root cfg)) template_manifest s')"
  by (simp add: generate_def prepare_def write_files_render Let_def
      split: prod.splits option.splits)

lemma generate_root_ok:
  assumes "fst (MkdirAll_name (cwd env) (Root cfg) s) = None"
  shows "generate env cfg s =
    write_files env cfg (Abs (cwd env) (Root cfg))
      (make_dirs cfg (Abs (cwd env) (Root cfg))
        (if Clean cfg
         then clean_root (Abs (cwd env) (Root cfg)) (snd (MkdirAll_name (cwd env) (Root cfg) s))
         else snd (MkdirAll_name (cwd env) (Root cfg) s)))"
  using assms by (simp add: generate_def Let_def case_prod_beta)

lemma generate_root_fails:
  assumes "MkdirAll_name (cwd env) (Root cfg) s = (Some e, s1)"
  shows "generate env cfg s = (Some e, s1)"
  using assms by (simp add: generate_def)

lemma render_all_append:
  "render_all env cfg r (xs @ ys) s =
     (case render_all env cfg r xs s of
        (Some err, s') \<Rightarrow> (Some err, s')
      | (None, s') \<Rightarrow> render_all env cfg r ys s')"
  by (induction xs arbitrary: s) (auto split: prod.splits option.splits)

lemma render_all_stops:
  assumes "render_all env cfg r pre s = (None, s1)"
    and "writeTemplate env r out name cfg s1 = (Some e, s2)"
  shows "render_all env cfg r (pre @ (out, name) # todo) s = (Some e, s2)"
  using assms by (simp add: render_all_append)

lemma writeTemplate_missing:
  "templateFS env (''templates/'' @ name) = None \<Longrightarrow>
   writeTemplate env r out name cfg s =
     (Some (PathError ''open'' (''templates/'' @ name) ErrNotExist), s)"
  by (simp add: writeTemplate_def)

lemma writeTemplate_unparsed:
  "templateFS env (''templates/'' @ name) = Some src \<Longrightarrow> Parse env name src = Inl e \<Longrightarrow>
   writeTemplate env r out name cfg s = (Some e, s)"
  by (simp add: writeTemplate_def)

lemma writeTemplate_parsed:
  assumes "templateFS env (''templates/'' @ name) = Some src" and "Parse env name src = Inr t"
  shows "writeTemplate env r out name cfg s =
    (case open_error (Join r out) (snd (MkdirAll (Dir_of (Join r out)) s)) of
       Some err \<Rightarrow> (Some err, snd (Create (Join r out) (snd (MkdirAll (Dir_of (Join r out)) s))))
     | None \<Rightarrow>
         (snd (Execute env t (template_data cfg)),
          Write (Join r out) (fst (Execute env t (template_data cfg)))
            (snd (Create (Join r out) (snd (MkdirAll (Dir_of (Join r out)) s))))))"
  using assms
  by (simp add: writeTemplate_def Let_def case_prod_beta split: option.splits)

lemma chg_render_all:
  "chg {Join r out |out name. (out, name) \<in> set es}
     {q. \<exists>(out, name) \<in> set es. prefix q (Dir_of (Join r out))} s
     (snd (render_all env cfg r es s))"
proof (induction es arbitrary: s)
  case Nil
  show ?case by (simp add: chg_refl)
next
  case (Cons x es)
  obtain out name where x: "x = (out, name)" by (cases x)
  let ?F = "{Join r out |out name. (out, name) \<in> set (x # es)}"
  let ?D = "{q. \<exists>(out, name) \<in> set (x # es). prefix q (Dir_of (Join r out))}"
  let ?s1 = "snd (writeTemplate env r out name cfg s)"
  have 1: "chg ?F ?D s ?s1"
    by (rule chg_mono [OF chg_writeTemplate]) (auto simp: x)
  have 2: "chg ?F ?D ?s1 (snd (render_all env cfg r es ?s1))"
    by (rule chg_mono [OF Cons.IH]) auto
  show ?case
  proof (cases "fst (writeTemplate env r out name cfg s)")
    case None
    with chg_trans [OF 1 2] show ?thesis by (simp add: x case_prod_beta)
  next
    case (Some e)
    with 1 show ?thesis by (simp add: x case_prod_beta)
  qed
qed

subsection \<open>Well-formed trees and the clean step\<close>

lemma set_butlast_prefixes: "set (butlast (prefixes q)) = {p. strict_prefix p q}"
proof -
  have e: "prefixes q = butlast (prefixes q) @ [q]"
    by (metis append_butlast_last_id last_prefixes prefixes_not_Nil)
  have "distinct (prefixes q)" by (rule distinct_prefixes)
  with e have "distinct (butlast (prefixes q) @ [q])" by simp
  then have n: "q \<notin> set (butlast (prefixes q))" by simp
  have "set (prefixes q) = insert q (set (butlast (prefixes q)))"
    by (subst e) simp
  then have "{p. prefix p q} = insert q (set (butlast (prefixes q)))"
    by (simp add: set_eq_iff)
  with n show ?thesis
    by (auto simp: strict_prefix_def)
qed

lemma wf_state_iff:
  "wf_state s \<longleftrightarrow>
     (\<forall>(q, n) \<in> set (files s).
        list_all valid_name q \<and> (\<forall>p. strict_prefix p q \<longrightarrow> lookup s p = Some Dir))"
  by (auto simp: wf_state_def list_all_iff set_butlast_prefixes)

lemma wf_lookup:
  assumes "wf_state s" and "lookup s q = Some n"
  shows "list_all valid_name q" and "strict_prefix p q \<Longrightarrow> lookup s p = Some Dir"
proof -
  show "list_all valid_name q"
  proof (cases "q = []")
    case True
    then show ?thesis by simp
  next
    case False
    with assms(2) have "(q, n) \<in> set (files s)" by (auto simp: lookup_def dest: map_of_SomeD)
    with assms(1) show ?thesis by (auto simp: wf_state_iff)
  qed
  show "lookup s p = Some Dir" if "strict_prefix p q"
  proof (cases "q = []")
    case True
    with that show ?thesis by simp
  next
    case False
    with assms(2) have "(q, n) \<in> set (files s)" by (auto simp: lookup_def dest: map_of_SomeD)
    with assms(1) that show ?thesis by (auto simp: wf_state_iff)
  qed
qed

lemma wf_not_blocked:
  assumes "wf_state s" and "lookup s p = Some Dir"
  shows "\<not> blocked s p"
proof
  assume "blocked s p"
  then obtain q where q: "prefix q p" "is_file (lookup s q)" by (auto simp: blocked_iff)
  show False
  proof (cases "q = p")
    case True
    with q(2) assms(2) show False by simp
  next
    case False
    with q(1) have "strict_prefix q p" by (simp add: strict_prefix_def)
    with assms have "lookup s q = Some Dir" by (rule wf_lookup(2))
    with q(2) show False by simp
  qed
qed

lemma wf_extend:
  assumes wf: "wf_state s"
    and files: "files s' = new @ files s"
    and dirs: "\<And>x. lookup s x = Some Dir \<Longrightarrow> lookup s' x = Some Dir"
    and new: "\<And>q n p. (q, n) \<in> set new \<Longrightarrow>
        list_all valid_name q \<and> (strict_prefix p q \<longrightarrow> lookup s' p = Some Dir)"
  shows "wf_state s'"
  unfolding wf_state_iff
proof (clarify, intro conjI allI impI)
  fix q n
  assume "(q, n) \<in> set (files s')"
  then consider "(q, n) \<in> set new" | "(q, n) \<in> set (files s)" by (auto simp: files)
  then show "list_all valid_name q"
  proof cases
    case 1
    then show ?thesis using new by blast
  next
    case 2
    with wf show ?thesis by (auto simp: wf_state_iff)
  qed
  fix p
  assume sp: "strict_prefix p q"
  from \<open>(q, n) \<in> set (files s')\<close>
  consider "(q, n) \<in> set new" | "(q, n) \<in> set (files s)" by (auto simp: files)
  then show "lookup s' p = Some Dir"
  proof cases
    case 1
    then show ?thesis using new sp by blast
  next
    case 2
    with wf sp have "lookup s p = Some Dir" by (auto simp: wf_state_iff)
    then show ?thesis by (rule dirs)
  qed
qed

lemma wf_log [simp]: "wf_state (log ev s) = wf_state s"
  by (simp add: wf_state_iff)

lemma files_MkdirAll:
  "files (snd (MkdirAll p s)) =
     (if lookup s p \<noteq> Some Dir \<and> \<not> blocked s p
      then map (\<lambda>q. (q, Dir)) (filter (\<lambda>q. lookup s q = None) (prefixes p)) @ files s
      else files s)"
proof (cases "lookup s p = Some Dir")
  case True
  then show ?thesis by (simp add: MkdirAll_def)
next
  case False
  show ?thesis
  proof (cases "find (\<lambda>q. is_file (lookup s q)) (prefixes p)")
    case None
    with False show ?thesis using find_blocked [of s p] by (simp add: MkdirAll_def)
  next
    case (Some a)
    with False show ?thesis using find_blocked [of s p] by (simp add: MkdirAll_def)
  qed
qed

lemma wf_MkdirAll:
  assumes "wf_state s" and "list_all valid_name p"
  shows "wf_state (snd (MkdirAll p s))"
proof (cases "lookup s p \<noteq> Some Dir \<and> \<not> blocked s p")
  case False
  then have "files (snd (MkdirAll p s)) = files s" by (auto simp: files_MkdirAll)
  moreover from False have "lookup (snd (MkdirAll p s)) = lookup s"
    by (auto simp: lookup_MkdirAll)
  ultimately show ?thesis using assms(1) by (simp add: wf_state_iff)
next
  case True
  let ?new = "map (\<lambda>q. (q, Dir)) (filter (\<lambda>q. lookup s q = None) (prefixes p))"
  from True have f: "files (snd (MkdirAll p s)) = ?new @ files s" by (simp add: files_MkdirAll)
  show ?thesis
  proof (rule wf_extend [OF assms(1) f])
    fix x assume "lookup s x = Some Dir"
    then show "lookup (snd (MkdirAll p s)) x = Some Dir" by (simp add: lookup_MkdirAll)
  next
    fix q n p'
    assume "(q, n) \<in> set ?new"
    then have q: "prefix q p" by auto
    with assms(2) have v: "list_all valid_name q"
      by (auto simp: prefix_def)
    have "lookup (snd (MkdirAll p s)) p' = Some Dir" if "strict_prefix p' q"
    proof -
      from that q have pp: "prefix p' p" by (auto simp: strict_prefix_def)
      with True have nf: "\<not> is_file (lookup s p')" by (auto simp: blocked_iff)
      show ?thesis
      proof (cases "lookup s p' = Some Dir")
        case True
        then show ?thesis by (simp add: lookup_MkdirAll)
      next
        case False
        with nf have "lookup s p' = None" by (simp add: not_file_not_dir)
        with \<open>lookup s p \<noteq> Some Dir \<and> \<not> blocked s p\<close> pp show ?thesis
          by (simp add: lookup_MkdirAll)
      qed
    qed
    with v show "list_all valid_name q \<and> (strict_prefix p' q \<longrightarrow> lookup (snd (MkdirAll p s)) p' = Some Dir)"
      by blast
  qed
qed

lemma strict_prefix_butlast: "p \<noteq> [] \<Longrightarrow> strict_prefix p' p \<longleftrightarrow> prefix p' (butlast p)"
proof -
  assume "p \<noteq> []"
  then obtain xs x where p: "p = xs @ [x]" by (cases p rule: rev_cases) auto
  have "\<not> prefix (xs @ [x]) xs" by (auto dest: prefix_length_le)
  then show ?thesis by (auto simp: p strict_prefix_def prefix_snoc)
qed

lemma wf_put_file:
  assumes wf: "wf_state s" and v: "list_all valid_name p"
    and ok: "p \<noteq> []" "lookup s p \<noteq> Some Dir" "lookup s (butlast p) = Some Dir"
    and f: "files s' = (p, File c) # files s"
  shows "wf_state s'"
proof (rule wf_extend [OF wf, of s' "[(p, File c)]"])
  show "files s' = [(p, File c)] @ files s" by (simp add: f)
next
  fix x assume "lookup s x = Some Dir"
  with ok show "lookup s' x = Some Dir" by (auto simp: lookup_def f)
next
  fix q n p'
  assume "(q, n) \<in> set [(p, File c)]"
  then have q: "q = p" by simp
  have "lookup s' p' = Some Dir" if "strict_prefix p' q"
  proof -
    from that q ok(1) have pp: "prefix p' (butlast p)"
      by (simp add: strict_prefix_butlast)
    have "lookup s p' = Some Dir"
    proof (cases "p' = butlast p")
      case True
      with ok show ?thesis by simp
    next
      case False
      with pp have "strict_prefix p' (butlast p)" by (simp add: strict_prefix_def)
      with wf ok(3) show ?thesis by (rule wf_lookup(2))
    qed
    moreover from that q have "p' \<noteq> p" by (auto simp: strict_prefix_def)
    ultimately show ?thesis by (auto simp: lookup_def f)
  qed
  with v q show "list_all valid_name q \<and> (strict_prefix p' q \<longrightarrow> lookup s' p' = Some Dir)"
    by blast
qed

lemma wf_WriteFile:
  assumes "wf_state s" and "list_all valid_name p"
  shows "wf_state (snd (WriteFile p c s))"
proof (cases "open_error p s")
  case None
  then have ok: "p \<noteq> []" "lookup s p \<noteq> Some Dir" "lookup s (butlast p) = Some Dir"
    by (simp_all add: open_error_None)
  have "wf_state (s\<lparr>files := (p, File c) # files s\<rparr>)"
    by (rule wf_put_file [OF assms ok]) simp
  with None show ?thesis by (simp add: WriteFile_def)
next
  case (Some e)
  with assms(1) show ?thesis by (simp add: WriteFile_def)
qed

lemma wf_Create:
  assumes "wf_state s" and "list_all valid_name p"
  shows "wf_state (snd (Create p s))"
proof (cases "open_error p s")
  case None
  then have ok: "p \<noteq> []" "lookup s p \<noteq> Some Dir" "lookup s (butlast p) = Some Dir"
    by (simp_all add: open_error_None)
  have "wf_state (s\<lparr>files := (p, File '''') # files s\<rparr>)"
    by (rule wf_put_file [OF assms ok]) simp
  with None show ?thesis by (simp add: Create_def)
next
  case (Some e)
  with assms(1) show ?thesis by (simp add: Create_def)
qed

lemma wf_Write:
  assumes "wf_state s" and "lookup s p = Some (File c)"
  shows "wf_state (Write p b s)"
proof -
  from assms have v: "list_all valid_name p" by (rule wf_lookup(1))
  from assms(2) have ne: "p \<noteq> []" by (auto simp: lookup_def)
  have d: "lookup s (butlast p) = Some Dir"
  proof -
    from ne have "strict_prefix (butlast p) p" by (simp add: strict_prefix_butlast)
    with assms show ?thesis by (rule wf_lookup(2))
  qed
  from assms(2) have nd: "lookup s p \<noteq> Some Dir" by simp
  have "wf_state (s\<lparr>files := (p, File (c @ b)) # files s\<rparr>)"
    by (rule wf_put_file [OF assms(1) v ne nd d]) simp
  with assms(2) show ?thesis by (simp add: Write_def)
qed

lemma wf_RemoveAll:
  assumes "wf_state s"
  shows "wf_state (snd (RemoveAll p s))"
  unfolding wf_state_iff
proof (clarify, intro conjI allI impI)
  fix q n
  assume "(q, n) \<in> set (files (snd (RemoveAll p s)))"
  then have m: "(q, n) \<in> set (files s)" and np: "\<not> prefix p q"
    by (auto simp: RemoveAll_def)
  from assms m show "list_all valid_name q" by (auto simp: wf_state_iff)
  fix p'
  assume sp: "strict_prefix p' q"
  with assms m have "lookup s p' = Some Dir" by (auto simp: wf_state_iff)
  moreover from sp np have "\<not> prefix p p'"
    by (meson prefix_order.dual_order.trans strict_prefix_def)
  ultimately show "lookup (snd (RemoveAll p s)) p' = Some Dir"
    by (simp add: lookup_RemoveAll)
qed

lemma wf_ReadDir [simp]: "wf_state (snd (ReadDir d s)) = wf_state s"
  by (simp add: ReadDir_def wf_state_iff)

lemma clean_root_fold:
  "clean_root r s =
     foldl (\<lambda>t e. snd (RemoveAll (Join r e) t)) (snd (ReadDir r s)) (fst (fst (ReadDir r s)))"
  by (simp add: clean_root_def case_prod_beta)

lemma lookup_fold_RemoveAll:
  "lookup (foldl (\<lambda>t e. snd (RemoveAll (Join r e) t)) s es) q =
     (if q \<noteq> [] \<and> (\<exists>e \<in> set es. prefix (Join r e) q) then None else lookup s q)"
  by (induction es arbitrary: s) (auto simp: lookup_RemoveAll)

lemma wf_fold_RemoveAll:
  "wf_state s \<Longrightarrow> wf_state (foldl (\<lambda>t e. snd (RemoveAll (Join r e) t)) s es)"
  by (induction es arbitrary: s) (auto simp: wf_RemoveAll)


lemma wf_clean_root: "wf_state s \<Longrightarrow> wf_state (clean_root r s)"
  by (simp add: clean_root_fold wf_fold_RemoveAll)


lemma ReadDir_names:
  assumes "wf_state s" and "lookup s r = Some Dir"
  shows "set (fst (fst (ReadDir r s))) = {n. lookup s (r @ [n]) \<noteq> None}"
    and "e \<in> set (fst (fst (ReadDir r s))) \<Longrightarrow> valid_name e"
proof -
  have E: "set (fst (fst (ReadDir r s))) =
      {last q |q n. (q, n) \<in> set (files s) \<and> q \<noteq> [] \<and> butlast q = r}"
    using assms(2) by (rule ReadDir_entries)
  show "set (fst (fst (ReadDir r s))) = {n. lookup s (r @ [n]) \<noteq> None}"
  proof (rule set_eqI, rule iffI)
    fix e assume "e \<in> set (fst (fst (ReadDir r s)))"
    with E obtain q n where q: "(q, n) \<in> set (files s)" "q \<noteq> []" "butlast q = r" "e = last q"
      by auto
    then have "q = r @ [e]" by (metis append_butlast_last_id)
    moreover from q(1) have "map_of (files s) q \<noteq> None"
      by (metis map_of_eq_None_iff image_eqI fst_conv)
    ultimately show "e \<in> {n. lookup s (r @ [n]) \<noteq> None}" by (simp add: lookup_def)
  next
    fix e assume "e \<in> {n. lookup s (r @ [n]) \<noteq> None}"
    then obtain n where "map_of (files s) (r @ [e]) = Some n" by (auto simp: lookup_def)
    then have "(r @ [e], n) \<in> set (files s)" by (rule map_of_SomeD)
    then show "e \<in> set (fst (fst (ReadDir r s)))" unfolding E by force
  qed
  show "valid_name e" if "e \<in> set (fst (fst (ReadDir r s)))"
  proof -
    from that E obtain q n where q: "(q, n) \<in> set (files s)" "q \<noteq> []" "e = last q"
      by auto
    with assms(1) have "list_all valid_name q" by (auto simp: wf_state_iff)
    with q show ?thesis by (auto simp: list_all_iff)
  qed
qed

lemma snoc_prefix_strict: "prefix (r @ [e]) q \<Longrightarrow> strict_prefix r q"
  by (auto simp: prefix_def strict_prefix_def)

lemma lookup_clean_root:
  assumes wf: "wf_state s" and r: "lookup s r = Some Dir"
  shows "lookup (clean_root r s) q = (if strict_prefix r q then None else lookup s q)"
proof (cases "strict_prefix r q")
  case True
  then obtain n rest where q: "q = r @ n # rest"
    by (rule strict_prefixE')
  show ?thesis
  proof (cases "lookup s q")
    case None
    with True show ?thesis by (simp add: clean_root_fold lookup_fold_RemoveAll)
  next
    case (Some x)
    have "lookup s (r @ [n]) \<noteq> None"
    proof (cases "rest = []")
      case True
      with Some q show ?thesis by simp
    next
      case False
      then have "strict_prefix (r @ [n]) q" by (auto simp: q strict_prefix_def)
      with wf Some have "lookup s (r @ [n]) = Some Dir" by (rule wf_lookup(2))
      then show ?thesis by simp
    qed
    with wf r have e: "n \<in> set (fst (fst (ReadDir r s)))" by (simp add: ReadDir_names(1))
    with wf r have "valid_name n" by (simp add: ReadDir_names(2))
    then have "Join r n = r @ [n]" by (rule Join_valid_name)
    then have "prefix (Join r n) q" by (simp add: q)
    with e True q show ?thesis
      by (auto simp: clean_root_fold lookup_fold_RemoveAll)
  qed
next
  case False
  have "\<not> prefix (Join r e) q" if "e \<in> set (fst (fst (ReadDir r s)))" for e
  proof
    assume p: "prefix (Join r e) q"
    from wf r that have "valid_name e" by (simp add: ReadDir_names(2))
    then have "Join r e = r @ [e]" by (rule Join_valid_name)
    with p have "strict_prefix r q" by (simp add: snoc_prefix_strict)
    with False show False by simp
  qed
  with False show ?thesis by (auto simp: clean_root_fold lookup_fold_RemoveAll)
qed

subsection \<open>When the writes succeed\<close>

lemma dir_paths_no_file_name:
  "d \<in> set dir_paths \<Longrightarrow> n \<in> set file_names \<Longrightarrow> n \<notin> set d"
  by (auto simp: dir_paths_def file_names_def)

lemma not_prefix_last:
  assumes "t \<noteq> []" and "last t \<notin> set d"
  shows "\<not> prefix (r @ t) (r @ d)"
proof
  assume "prefix (r @ t) (r @ d)"
  then have "prefix t d" by simp
  then have "set t \<subseteq> set d" by (auto simp: prefix_def)
  with assms show False by (metis last_in_set subsetD)
qed

lemma file_not_above_dir:
  assumes "d \<in> set dir_paths" and "t \<noteq> []" and "last t \<in> set file_names"
  shows "\<not> prefix (r @ t) (r @ d)"
  using assms by (intro not_prefix_last) (auto dest: dir_paths_no_file_name)

lemma MkdirAll_ok_chg:
  assumes c: "chg F D s s'" and f: "\<And>q. q \<in> F \<Longrightarrow> \<not> prefix q d"
    and ok: "fst (MkdirAll d s) = None"
  shows "fst (MkdirAll d s') = None"
proof (cases "lookup s d = Some Dir")
  case True
  with c have "lookup s' d = Some Dir" by (rule chg_dir)
  then show ?thesis by (simp add: fst_MkdirAll)
next
  case False
  with ok have "\<not> blocked s d" by (simp add: fst_MkdirAll)
  moreover have "blocked s' d \<Longrightarrow> blocked s d"
    by (rule chg_blocked_back [OF c]) (use f in auto)
  ultimately show ?thesis by (auto simp: fst_MkdirAll)
qed

lemma writeTemplate_ok:
  assumes t: "template_ok env cfg name"
    and d: "fst (MkdirAll (Dir_of (Join r out)) s) = None"
    and f: "lookup s (Join r out) \<noteq> Some Dir"
    and n: "\<not> prefix (Join r out) (Dir_of (Join r out))"
    and ne: "Join r out \<noteq> []"
  shows "fst (writeTemplate env r out name cfg s) = None"
proof -
  from t obtain src tmpl where src: "templateFS env (''templates/'' @ name) = Some src"
    and tmpl: "Parse env name src = Inr tmpl"
    and ex: "snd (Execute env tmpl (template_data cfg)) = None"
    by (auto simp: template_ok_def split: option.splits sum.splits)
  let ?s1 = "snd (MkdirAll (Dir_of (Join r out)) s)"
  from d have "lookup ?s1 (Dir_of (Join r out)) = Some Dir" by (rule MkdirAll_makes_dir)
  moreover from f n have "lookup ?s1 (Join r out) \<noteq> Some Dir" by (simp add: lookup_MkdirAll)
  ultimately have "open_error (Join r out) ?s1 = None"
    using ne by (simp add: open_error_None Dir_of_def)
  with ex show ?thesis by (simp add: writeTemplate_parsed [OF src tmpl])
qed

lemma render_all_ok:
  assumes "\<And>out name. (out, name) \<in> set es \<Longrightarrow> template_ok env cfg name"
    and "\<And>out name. (out, name) \<in> set es \<Longrightarrow>
           fst (MkdirAll (Dir_of (Join r out)) s) = None \<and> lookup s (Join r out) \<noteq> Some Dir
             \<and> Join r out \<noteq> []"
    and "\<And>out name out' name'. (out, name) \<in> set es \<Longrightarrow> (out', name') \<in> set es \<Longrightarrow>
           \<not> prefix (Join r out) (Dir_of (Join r out'))"
  shows "fst (render_all env cfg r es s) = None"
  using assms
proof (induction es arbitrary: s)
  case Nil
  show ?case by simp
next
  case (Cons x es)
  obtain out name where x: "x = (out, name)" by (cases x)
  let ?s1 = "snd (writeTemplate env r out name cfg s)"
  have in1: "(out, name) \<in> set (x # es)" by (simp add: x)
  have ok1: "fst (writeTemplate env r out name cfg s) = None"
    using Cons.prems(1) [OF in1] Cons.prems(2) [OF in1] Cons.prems(3) [OF in1 in1]
    by (intro writeTemplate_ok) auto
  have c: "chg {Join r out} {q. prefix q (Dir_of (Join r out))} s ?s1"
    by (rule chg_writeTemplate)
  have "fst (render_all env cfg r es ?s1) = None"
  proof (rule Cons.IH)
    fix out' name' assume m: "(out', name') \<in> set es"
    then have in2: "(out', name') \<in> set (x # es)" by simp
    from Cons.prems(1) [OF in2] show "template_ok env cfg name'" .
    have a: "fst (MkdirAll (Dir_of (Join r out')) ?s1) = None"
      by (rule MkdirAll_ok_chg [OF c]) (use Cons.prems(2) [OF in2] Cons.prems(3) [OF in1 in2] in auto)
    have "Join r out' \<notin> {q. prefix q (Dir_of (Join r out))}"
      using Cons.prems(3) [OF in2 in1] by simp
    with c have b: "lookup ?s1 (Join r out') \<noteq> Some Dir"
      using Cons.prems(2) [OF in2] by (intro chg_not_dir [OF c]) auto
    from a b Cons.prems(2) [OF in2]
    show "fst (MkdirAll (Dir_of (Join r out')) ?s1) = None \<and> lookup ?s1 (Join r out') \<noteq> Some Dir
        \<and> Join r out' \<noteq> []"
      by simp
  next
    fix out1 name1 out2 name2
    assume "(out1, name1) \<in> set es" "(out2, name2) \<in> set es"
    then have "(out1, name1) \<in> set (x # es)" "(out2, name2) \<in> set (x # es)" by simp_all
    then show "\<not> prefix (Join r out1) (Dir_of (Join r out2))"
      by (rule Cons.prems(3))
  qed
  with ok1 show ?case by (simp add: x case_prod_beta)
qed

lemma manifest_independent:
  assumes "(out, name) \<in> set template_manifest" and "(out', name') \<in> set template_manifest"
  shows "\<not> prefix (Join r out) (Dir_of (Join r out'))"
proof -
  from assms(1) obtain p where p: "p \<in> set out_paths" "Join r out = r @ p"
    using Join_manifest_entry by blast
  from assms(2) obtain p' where p': "p' \<in> set out_paths" "Join r out' = r @ p'"
    using Join_manifest_entry by blast
  from p'(1) have d: "butlast p' \<in> set dir_paths" by (rule out_paths_dirs)
  from p(1) have "p \<noteq> []" "last p \<in> set file_names"
    by (auto simp: out_paths_def file_names_def)
  with d have "\<not> prefix (r @ p) (r @ butlast p')" by (rule file_not_above_dir)
  moreover from p'(1) have "p' \<noteq> []" by (auto simp: out_paths_def)
  ultimately show ?thesis by (simp add: p p' Dir_of_def butlast_append)
qed

lemma write_files_ok:
  assumes t: "\<And>out name. (out, name) \<in> set template_manifest \<Longrightarrow> template_ok env cfg name"
    and r: "lookup s r = Some Dir"
    and g: "lookup s (r @ [''go.mod'']) \<noteq> Some Dir"
    and m: "lookup s (r @ [''Makefile'']) \<noteq> Some Dir"
    and o: "\<And>p. p \<in> set out_paths \<Longrightarrow>
        fst (MkdirAll (r @ butlast p) s) = None \<and> lookup s (r @ p) \<noteq> Some Dir"
  shows "fst (write_files env cfg r s) = None"
proof -
  let ?s1 = "snd (writeGoMod r (ModuleName cfg) s)"
  let ?s2 = "snd (writeMakefile r (Port cfg) ?s1)"
  have c1: "chg {r @ [''go.mod'']} {} s ?s1"
    by (simp add: writeGoMod_def Join_statics chg_WriteFile)
  have c2: "chg {r @ [''Makefile'']} {} ?s1 ?s2"
    by (simp add: writeMakefile_def Join_statics chg_WriteFile)
  have c12: "chg {r @ [''go.mod''], r @ [''Makefile'']} {} s ?s2"
    by (rule chg_trans [OF chg_mono [OF c1] chg_mono [OF c2]]) auto
  have ok1: "fst (writeGoMod r (ModuleName cfg) s) = None"
    using r g by (simp add: writeGoMod_def Join_statics open_error_None)
  have "lookup ?s1 r = Some Dir" using c1 r by (rule chg_dir)
  moreover have "lookup ?s1 (r @ [''Makefile'']) \<noteq> Some Dir"
    using c1 _ m by (rule chg_not_dir) simp
  ultimately have ok2: "fst (writeMakefile r (Port cfg) ?s1) = None"
    by (simp add: writeMakefile_def Join_statics open_error_None)
  have ok3: "fst (render_all env cfg r template_manifest ?s2) = None"
  proof (rule render_all_ok)
    fix out name assume e: "(out, name) \<in> set template_manifest"
    then show "template_ok env cfg name" by (rule t)
    from e obtain p where p: "p \<in> set out_paths" "Join r out = r @ p"
      using Join_manifest_entry by blast
    from p(1) have ne: "p \<noteq> []" by (auto simp: out_paths_def)
    then have dir: "Dir_of (r @ p) = r @ butlast p"
      by (simp add: Dir_of_def butlast_append)
    from p(1) have d: "butlast p \<in> set dir_paths" by (rule out_paths_dirs)
    have a: "fst (MkdirAll (r @ butlast p) ?s2) = None"
    proof (rule MkdirAll_ok_chg [OF c12])
      fix q assume "q \<in> {r @ [''go.mod''], r @ [''Makefile'']}"
      then show "\<not> prefix q (r @ butlast p)"
        using file_not_above_dir [OF d, of "[''go.mod'']" r]
          file_not_above_dir [OF d, of "[''Makefile'']" r]
        by (auto simp: file_names_def)
    next
      from o [OF p(1)] show "fst (MkdirAll (r @ butlast p) s) = None" by simp
    qed
    have b: "lookup ?s2 (r @ p) \<noteq> Some Dir"
      using c12 _ conjunct2 [OF o [OF p(1)]] by (rule chg_not_dir) simp
    from a b ne
    show "fst (MkdirAll (Dir_of (Join r out)) ?s2) = None \<and> lookup ?s2 (Join r out) \<noteq> Some Dir
        \<and> Join r out \<noteq> []"
      by (simp add: dir p)
  next
    fix out name out' name'
    assume "(out, name) \<in> set template_manifest" "(out', name') \<in> set template_manifest"
    then show "\<not> prefix (Join r out) (Dir_of (Join r out'))" by (rule manifest_independent)
  qed
  from ok1 ok2 ok3 show ?thesis
    by (simp add: write_files_render case_prod_beta)
qed

subsection \<open>Whole runs\<close>

lemma chg_write_files:
  "chg ({r @ [''go.mod''], r @ [''Makefile'']} \<union> {r @ p |p. p \<in> set out_paths})
     {q. \<exists>p \<in> set out_paths. prefix q (r @ butlast p)} s
     (snd (write_files env cfg r s))"
proof -
  let ?F = "{r @ [''go.mod''], r @ [''Makefile'']} \<union> {r @ p |p. p \<in> set out_paths}"
  let ?D = "{q. \<exists>p \<in> set out_paths. prefix q (r @ butlast p)}"
  let ?s1 = "snd (writeGoMod r (ModuleName cfg) s)"
  let ?s2 = "snd (writeMakefile r (Port cfg) ?s1)"
  let ?s3 = "snd (render_all env cfg r template_manifest ?s2)"
  have 1: "chg ?F ?D s ?s1"
    unfolding writeGoMod_def Join_statics by (rule chg_mono [OF chg_WriteFile]) auto
  have 2: "chg ?F ?D ?s1 ?s2"
    unfolding writeMakefile_def Join_statics by (rule chg_mono [OF chg_WriteFile]) auto
  have 3: "chg ?F ?D ?s2 ?s3"
  proof (rule chg_mono [OF chg_render_all])
    show "{Join r out |out name. (out, name) \<in> set template_manifest} \<subseteq> ?F"
      using Join_manifest_entry by fastforce
    show "{q. \<exists>(out, name) \<in> set template_manifest. prefix q (Dir_of (Join r out))} \<subseteq> ?D"
    proof
      fix q assume "q \<in> {q. \<exists>(out, name) \<in> set template_manifest. prefix q (Dir_of (Join r out))}"
      then obtain out name where e: "(out, name) \<in> set template_manifest"
        and q: "prefix q (Dir_of (Join r out))" by auto
      from e obtain p where p: "p \<in> set out_paths" "Join r out = r @ p"
        using Join_manifest_entry by blast
      from p(1) have "p \<noteq> []" by (auto simp: out_paths_def)
      then have "Dir_of (r @ p) = r @ butlast p" by (simp add: Dir_of_def butlast_append)
      with q p show "q \<in> ?D" by auto
    qed
  qed
  have 12: "chg ?F ?D s ?s2" by (rule chg_trans [OF 1 2])
  have 123: "chg ?F ?D s ?s3" by (rule chg_trans [OF 12 3])
  show ?thesis
  proof (cases "fst (writeGoMod r (ModuleName cfg) s)")
    case (Some e)
    with 1 show ?thesis by (simp add: write_files_render case_prod_beta)
  next
    case None
    show ?thesis
    proof (cases "fst (writeMakefile r (Port cfg) ?s1)")
      case (Some e)
      with None 12 show ?thesis by (simp add: write_files_render case_prod_beta)
    next
      case None
      with \<open>fst (writeGoMod r (ModuleName cfg) s) = None\<close> 123 show ?thesis
        by (simp add: write_files_render case_prod_beta)
    qed
  qed
qed

lemma chg_make_dirs:
  "chg {r @ d @ [''.gitkeep''] |d. Gitkeep cfg \<and> d \<in> set dir_paths}
     {q. \<exists>d \<in> set dir_paths. prefix q (r @ d)} s (make_dirs cfg r s)"
  unfolding make_dirs_paths
  by (rule chg_mono [OF chg_make_paths]) auto

lemma make_dirs_dir:
  assumes "d \<in> set dir_paths" and "\<not> blocked s (r @ d)"
  shows "lookup (make_dirs cfg r s) (r @ d) = Some Dir"
  unfolding make_dirs_paths
proof (rule make_paths_dir)
  from assms(1) show "r @ d \<in> set (map ((@) r) dir_paths)" by simp
  from assms(2) show "\<not> blocked s (r @ d)" .
  fix p' assume "p' \<in> set (map ((@) r) dir_paths)"
  then obtain d' where "d' \<in> set dir_paths" "p' = r @ d'" by auto
  with file_not_above_dir [OF assms(1), of "d' @ [''.gitkeep'']" r]
  show "\<not> prefix (p' @ [''.gitkeep'']) (r @ d)" by (simp add: file_names_def)
qed

lemma make_dirs_marker:
  assumes "Gitkeep cfg" and "d \<in> set dir_paths" and "\<not> blocked s (r @ d)"
    and "lookup s (r @ d @ [''.gitkeep'']) \<noteq> Some Dir"
  shows "lookup (make_dirs cfg r s) (r @ d @ [''.gitkeep'']) = Some (File '''')"
proof -
  have "lookup (make_paths cfg s (map ((@) r) dir_paths)) ((r @ d) @ [''.gitkeep'']) = Some (File '''')"
  proof (rule make_paths_marker [OF assms(1)])
    from assms(2) show "r @ d \<in> set (map ((@) r) dir_paths)" by simp
    from assms(3) show "\<not> blocked s (r @ d)" .
    from assms(4) show "lookup s ((r @ d) @ [''.gitkeep'']) \<noteq> Some Dir" by simp
  next
    fix p' assume "p' \<in> set (map ((@) r) dir_paths)"
    then obtain d' where d': "d' \<in> set dir_paths" "p' = r @ d'" by auto
    with file_not_above_dir [OF assms(2), of "d' @ [''.gitkeep'']" r]
    show "\<not> prefix (p' @ [''.gitkeep'']) (r @ d)" by (simp add: file_names_def)
    from d' file_not_above_dir [OF d'(1), of "d @ [''.gitkeep'']" r]
    show "\<not> prefix ((r @ d) @ [''.gitkeep'']) p'" by (simp add: file_names_def)
  qed
  then show ?thesis by (simp add: make_dirs_paths)
qed

lemma tail_ok:
  assumes t: "\<And>out name. (out, name) \<in> set template_manifest \<Longrightarrow> template_ok env cfg name"
    and r: "lookup s r = Some Dir"
    and g: "lookup s (r @ [''go.mod'']) \<noteq> Some Dir"
    and m: "lookup s (r @ [''Makefile'']) \<noteq> Some Dir"
    and o: "\<And>p. p \<in> set out_paths \<Longrightarrow>
        fst (MkdirAll (r @ butlast p) s) = None \<and> lookup s (r @ p) \<noteq> Some Dir"
  shows "fst (write_files env cfg r (make_dirs cfg r s)) = None"
proof (rule write_files_ok [OF t])
  let ?s' = "make_dirs cfg r s"
  note c = chg_make_dirs [of r cfg s]
  have nd: "r @ t \<notin> {q. \<exists>d \<in> set dir_paths. prefix q (r @ d)}"
    if "t \<noteq> []" "last t \<in> set file_names" for t
    using that file_not_above_dir by blast
  from c r show "lookup ?s' r = Some Dir" by (rule chg_dir)
  show "lookup ?s' (r @ [''go.mod'']) \<noteq> Some Dir"
    by (rule chg_not_dir [OF c _ g], rule nd) (simp_all add: file_names_def)
  show "lookup ?s' (r @ [''Makefile'']) \<noteq> Some Dir"
    by (rule chg_not_dir [OF c _ m], rule nd) (simp_all add: file_names_def)
  fix p assume p: "p \<in> set out_paths"
  then have l: "p \<noteq> []" "last p \<in> set file_names" by (auto simp: out_paths_def file_names_def)
  from p have d: "butlast p \<in> set dir_paths" by (rule out_paths_dirs)
  have a: "fst (MkdirAll (r @ butlast p) ?s') = None"
  proof (rule MkdirAll_ok_chg [OF c])
    fix q assume "q \<in> {r @ d @ [''.gitkeep''] |d. Gitkeep cfg \<and> d \<in> set dir_paths}"
    then obtain d' where "q = r @ d' @ [''.gitkeep'']" by auto
    with file_not_above_dir [OF d, of "d' @ [''.gitkeep'']" r]
    show "\<not> prefix q (r @ butlast p)" by (simp add: file_names_def)
  next
    from o [OF p] show "fst (MkdirAll (r @ butlast p) s) = None" by simp
  qed
  have b: "lookup ?s' (r @ p) \<noteq> Some Dir"
    by (rule chg_not_dir [OF c nd [OF l] conjunct2 [OF o [OF p]]])
  from a b show "fst (MkdirAll (r @ butlast p) ?s') = None \<and> lookup ?s' (r @ p) \<noteq> Some Dir"
    by simp
qed

subsection \<open>Creating the root\<close>

lemma walk_clean: "walk s cur cs = Inr p \<Longrightarrow> p = clean_onto cur cs"
  by (induction cs arbitrary: cur) (auto simp: clean_onto_def split: option.splits node.splits)

lemma Abs_start: "Abs wd name = clean_onto (start_dir wd name) (split_on (CHR ''/'') name)"
  by (simp add: Abs_def start_dir_def)

lemma Stat_Abs: "Stat wd name s = Inr n \<Longrightarrow> lookup s (Abs wd name) = Some n"
  by (auto simp: Stat_def Abs_start dest: walk_clean split: if_splits sum.splits option.splits)

lemma clean_onto_blanks: "\<forall>c \<in> set bs. c = '''' \<Longrightarrow> clean_onto p (cs @ bs) = clean_onto p cs"
  unfolding clean_onto_def by (induction bs rule: rev_induct) (simp_all add: clean_step_def)

lemma clean_onto_snoc: "clean_onto p (cs @ [c]) = clean_step (clean_onto p cs) c"
  by (simp add: clean_onto_def)

lemma trailing_blanks:
  "\<exists>bs. xs = rev (dropWhile (\<lambda>c. c = '''') (rev xs)) @ bs \<and> (\<forall>c \<in> set bs. c = '''')"
proof (intro exI conjI)
  show "xs = rev (dropWhile (\<lambda>c. c = '''') (rev xs)) @ rev (takeWhile (\<lambda>c. c = '''') (rev xs))"
    by (metis rev_append rev_rev_ident takeWhile_dropWhile_id)
  show "\<forall>c \<in> set (rev (takeWhile (\<lambda>c. c = '''') (rev xs))). c = ''''"
    by (auto dest: set_takeWhileD)
qed

lemma last_not_blank:
  assumes "rev (dropWhile (\<lambda>c. c = '''') (rev xs)) \<noteq> []"
  shows "last (rev (dropWhile (\<lambda>c. c = '''') (rev xs))) \<noteq> ''''"
proof -
  from assms have "dropWhile (\<lambda>c. c = '''') (rev xs) \<noteq> []" by simp
  then have "hd (dropWhile (\<lambda>c. c = '''') (rev xs)) \<noteq> ''''" by (rule hd_dropWhile)
  with assms show ?thesis by (simp add: last_rev)
qed

lemma Mkdir_fails: "fst (Mkdir wd name s) \<noteq> None \<Longrightarrow> snd (Mkdir wd name s) = s"
  by (auto simp: Mkdir_def Let_def split: if_splits sum.splits option.splits node.splits)

lemma Mkdir_ok:
  assumes "fst (Mkdir wd name s) = None"
  shows "snd (Mkdir wd name s) = s\<lparr>files := (Abs wd name, Dir) # files s\<rparr>"
    and "lookup s (Abs wd name) = None"
    and "Abs wd name \<noteq> []"
    and "lookup s (butlast (Abs wd name)) = Some Dir"
    and "valid_name (last (Abs wd name))"
proof -
  define xs where "xs = split_on (CHR ''/'') name"
  define cs where "cs = rev (dropWhile (\<lambda>c. c = '''') (rev xs))"
  have m: "Mkdir wd name s =
     (if name = '''' then (Some ENOENT, s)
      else if cs = [] then (Some EEXIST, s)
      else (case walk s (start_dir wd name) (butlast cs) of
              Inl e \<Rightarrow> (Some e, s)
            | Inr parent \<Rightarrow>
                (case lookup s parent of
                   None \<Rightarrow> (Some ENOENT, s)
                 | Some (File x) \<Rightarrow> (Some ENOTDIR, s)
                 | Some Dir \<Rightarrow>
                     if last cs = ''.'' \<or> last cs = ''..'' \<or> lookup s (parent @ [last cs]) \<noteq> None
                     then (Some EEXIST, s)
                     else (None, s\<lparr>files := (parent @ [last cs], Dir) # files s\<rparr>))))"
    unfolding cs_def xs_def Mkdir_def Let_def by (rule refl)
  from assms have ne: "name \<noteq> ''''" "cs \<noteq> []"
    by (auto simp: m split: if_splits)
  with assms obtain parent where w: "walk s (start_dir wd name) (butlast cs) = Inr parent"
    by (auto simp: m split: if_splits sum.splits)
  with assms ne have d: "lookup s parent = Some Dir"
    and l: "last cs \<noteq> ''.''" "last cs \<noteq> ''..''" "lookup s (parent @ [last cs]) = None"
    and s': "snd (Mkdir wd name s) = s\<lparr>files := (parent @ [last cs], Dir) # files s\<rparr>"
    by (auto simp: m split: if_splits option.splits node.splits)
  from ne(2) have nb: "last cs \<noteq> ''''" unfolding cs_def by (rule last_not_blank)
  obtain bs where bs: "xs = cs @ bs" "\<forall>c \<in> set bs. c = ''''"
    using trailing_blanks [of xs] unfolding cs_def by blast
  from ne(2) have split: "cs = butlast cs @ [last cs]" by simp
  have "Abs wd name = clean_onto (start_dir wd name) (cs @ bs)"
    unfolding Abs_start xs_def [symmetric] bs(1) by (rule refl)
  also have "\<dots> = clean_onto (start_dir wd name) cs"
    using bs(2) by (rule clean_onto_blanks)
  also have "\<dots> = clean_onto (start_dir wd name) (butlast cs @ [last cs])"
    using split by simp
  also have "\<dots> = clean_step (clean_onto (start_dir wd name) (butlast cs)) (last cs)"
    by (rule clean_onto_snoc)
  also have "\<dots> = parent @ [last cs]"
    using walk_clean [OF w] l(1,2) nb by (simp add: clean_step_def)
  finally have a: "Abs wd name = parent @ [last cs]" .
  from s' show "snd (Mkdir wd name s) = s\<lparr>files := (Abs wd name, Dir) # files s\<rparr>"
    by (simp add: a)
  from l(3) show "lookup s (Abs wd name) = None" by (simp add: a)
  show "Abs wd name \<noteq> []" by (simp add: a)
  from d show "lookup s (butlast (Abs wd name)) = Some Dir" by (simp add: a)
  have "last cs \<in> set cs" using ne(2) by (rule last_in_set)
  then have "last cs \<in> set xs" unfolding cs_def by (auto dest: set_dropWhileD)
  with split_on_no_slash have "CHR ''/'' \<notin> set (last cs)" unfolding xs_def by blast
  with l(1,2) nb show "valid_name (last (Abs wd name))" by (simp add: a valid_name_def)
qed

declare MkdirAll_rec.simps [simp del]

text \<open>The equation of \<^verbatim>\<open>MkdirAll\<close> when the fast path does not decide.\<close>

lemma MkdirAll_rec_slow:
  assumes "Stat wd name s = Inl e0"
    and "par = (if 1 < length (parent_end name)
                then MkdirAll_rec wd (butlast (parent_end name)) s else (None, s))"
  shows "MkdirAll_rec wd name s =
     (case fst par of
        Some err \<Rightarrow> (Some err, snd par)
      | None \<Rightarrow>
          (case fst (Mkdir wd name (snd par)) of
             None \<Rightarrow> (None, snd (Mkdir wd name (snd par)))
           | Some e \<Rightarrow>
               (if Stat wd name (snd par) = Inr Dir then (None, snd par)
                else (Some (PathError ''mkdir'' name e), snd par))))"
proof -

  have "MkdirAll_rec wd name s =
     (case par of
        (Some err, s1) \<Rightarrow> (Some err, s1)
      | (None, s1) \<Rightarrow>
          (case Mkdir wd name s1 of
             (None, s2) \<Rightarrow> (None, s2)
           | (Some e, s2) \<Rightarrow>
               (case Stat wd name s2 of
                  Inr Dir \<Rightarrow> (None, s2)
                | Inr (File x) \<Rightarrow> (Some (PathError ''mkdir'' name e), s2)
                | Inl e1 \<Rightarrow> (Some (PathError ''mkdir'' name e), s2))))"
    unfolding assms(2) by (subst MkdirAll_rec.simps) (simp add: assms(1))
  also have "\<dots> =
     (case fst par of
        Some err \<Rightarrow> (Some err, snd par)
      | None \<Rightarrow>
          (case fst (Mkdir wd name (snd par)) of
             None \<Rightarrow> (None, snd (Mkdir wd name (snd par)))
           | Some e \<Rightarrow>
               (if Stat wd name (snd par) = Inr Dir then (None, snd par)
                else (Some (PathError ''mkdir'' name e), snd par))))"
  proof -
    obtain a b where par: "par = (a, b)" by (cases par)
    obtain m s2 where mk: "Mkdir wd name b = (m, s2)" by (cases "Mkdir wd name b")
    have s2: "s2 = b" if "m = Some e" for e
      using Mkdir_fails [of wd name b] that by (simp add: mk)
    show ?thesis
      by (cases a; cases m) (auto simp: par mk s2 split: sum.splits node.splits)
  qed
  finally show ?thesis .
qed

text \<open>What holds of every step of \<^verbatim>\<open>MkdirAll\<close> holds of the whole call.\<close>

lemma MkdirAll_rec_steps:
  assumes refl: "\<And>a. P a a"
    and trans: "\<And>a b c. P a b \<Longrightarrow> P b c \<Longrightarrow> P a c"
    and step: "\<And>wd nm a. P a (snd (Mkdir wd nm a))"
  shows "P s (snd (MkdirAll_rec wd name s))"
proof (induction wd name s rule: MkdirAll_rec.induct)
  case (1 wd name s)
  show ?case
  proof (cases "Stat wd name s")
    case (Inr n)
    then show ?thesis by (cases n) (simp_all add: MkdirAll_rec.simps [of wd name s] refl)
  next
    case (Inl e0)
    define par where "par = (if 1 < length (parent_end name)
                then MkdirAll_rec wd (butlast (parent_end name)) s else (None, s))"
    have p: "P s (snd par)"
      using "1.IH" [OF Inl] by (simp add: par_def refl)
    have "P (snd par) (snd (Mkdir wd name (snd par)))" by (rule step)
    with p have q: "P s (snd (Mkdir wd name (snd par)))" by (rule trans)
    from p q show ?thesis
      by (simp add: MkdirAll_rec_slow [OF Inl par_def] split: option.splits)
  qed
qed

lemma lookup_Mkdir:
  "lookup (snd (Mkdir wd nm s)) q =
     (if fst (Mkdir wd nm s) = None \<and> q = Abs wd nm then Some Dir else lookup s q)"
proof (cases "fst (Mkdir wd nm s)")
  case None
  from Mkdir_ok(1,3) [OF None] show ?thesis by (simp add: None lookup_def)
next
  case (Some e)
  then show ?thesis by (simp add: Mkdir_fails)
qed

lemma chg_Mkdir: "chg {} UNIV s (snd (Mkdir wd nm s))"
  using Mkdir_ok(2) [of wd nm s] by (auto simp: chg_def lookup_Mkdir)

lemma trace_Mkdir [simp]: "trace (snd (Mkdir wd nm s)) = trace s"
proof (cases "fst (Mkdir wd nm s)")
  case None
  from Mkdir_ok(1) [OF None] show ?thesis by simp
next
  case (Some e)
  then show ?thesis by (simp add: Mkdir_fails)
qed

lemma wf_Mkdir:
  assumes wf: "wf_state s"
  shows "wf_state (snd (Mkdir wd nm s))"
proof (cases "fst (Mkdir wd nm s)")
  case (Some e)
  with wf show ?thesis by (simp add: Mkdir_fails)
next
  case None
  note ok = Mkdir_ok [OF None]
  let ?p = "Abs wd nm"
  show ?thesis
  proof (rule wf_extend [OF wf, where new = "[(?p, Dir)]"])
    show "files (snd (Mkdir wd nm s)) = [(?p, Dir)] @ files s" by (simp add: ok(1))
    fix x assume "lookup s x = Some Dir"
    then show "lookup (snd (Mkdir wd nm s)) x = Some Dir" by (simp add: lookup_Mkdir)
  next
    fix q n p assume "(q, n) \<in> set [(?p, Dir)]"
    then have q: "q = ?p" by simp
    from wf ok(4) have v: "list_all valid_name (butlast ?p)" by (rule wf_lookup(1))
    from v ok(5) have "list_all valid_name (butlast ?p @ [last ?p])" by simp
    with ok(3) have 1: "list_all valid_name q" by (simp add: q)
    have 2: "lookup (snd (Mkdir wd nm s)) p = Some Dir" if sp: "strict_prefix p q"
    proof -
      from sp ok(3) have "prefix p (butlast ?p)"
        unfolding q by (metis append_butlast_last_id prefix_snoc strict_prefix_def)
      then have "p = butlast ?p \<or> strict_prefix p (butlast ?p)" by (auto simp: strict_prefix_def)
      then have "lookup s p = Some Dir"
        using ok(4) wf_lookup(2) [OF wf ok(4)] by auto
      then show ?thesis by (simp add: lookup_Mkdir)
    qed
    from 1 2 show "list_all valid_name q \<and> (strict_prefix p q \<longrightarrow> lookup (snd (Mkdir wd nm s)) p = Some Dir)"
      by simp
  qed
qed

lemma chg_MkdirAll_rec: "chg {} UNIV s (snd (MkdirAll_rec wd name s))"
  by (rule MkdirAll_rec_steps [where P = "chg {} UNIV"]) (auto intro: chg_refl chg_trans chg_Mkdir)

lemma trace_MkdirAll_rec [simp]: "trace (snd (MkdirAll_rec wd name s)) = trace s"
  by (rule MkdirAll_rec_steps [where P = "\<lambda>a b. trace b = trace a"]) simp_all

lemma wf_MkdirAll_rec: "wf_state s \<Longrightarrow> wf_state (snd (MkdirAll_rec wd name s))"
  using MkdirAll_rec_steps [where P = "\<lambda>a b. wf_state a \<longrightarrow> wf_state b" and wd = wd and name = name and s = s]
  by (simp add: wf_Mkdir)

lemma MkdirAll_rec_dir:
  "fst (MkdirAll_rec wd name s) = None \<Longrightarrow> lookup (snd (MkdirAll_rec wd name s)) (Abs wd name) = Some Dir"
proof -
  assume ok: "fst (MkdirAll_rec wd name s) = None"
  show ?thesis
  proof (cases "Stat wd name s")
    case (Inr n)
    with ok have "n = Dir" by (cases n) (simp_all add: MkdirAll_rec.simps [of wd name s])
    with Inr Stat_Abs [OF Inr] show ?thesis by (simp add: MkdirAll_rec.simps [of wd name s])
  next
    case (Inl e0)
    define par where "par = (if 1 < length (parent_end name)
                then MkdirAll_rec wd (butlast (parent_end name)) s else (None, s))"
    note eq = MkdirAll_rec_slow [OF Inl par_def]
    from ok have p: "fst par = None" by (cases "fst par") (simp_all add: eq)
    show ?thesis
    proof (cases "fst (Mkdir wd name (snd par))")
      case None
      with p show ?thesis by (simp add: eq lookup_Mkdir)
    next
      case (Some e)
      with ok p have "Stat wd name (snd par) = Inr Dir" by (simp add: eq split: if_splits)
      with p Some show ?thesis by (simp add: eq Stat_Abs)
    qed
  qed
qed

lemma MkdirAll_rec_exists: "Stat wd name s = Inr Dir \<Longrightarrow> MkdirAll_rec wd name s = (None, s)"
  by (simp add: MkdirAll_rec.simps [of wd name s])

lemma MkdirAll_name_ok:
  assumes "fst (MkdirAll_name wd name s) = None"
  shows "lookup (snd (MkdirAll_name wd name s)) (Abs wd name) = Some Dir"
proof -
  from assms have "fst (MkdirAll_rec wd name s) = None"
    by (simp add: MkdirAll_name_def case_prod_beta)
  then have "lookup (snd (MkdirAll_rec wd name s)) (Abs wd name) = Some Dir"
    by (rule MkdirAll_rec_dir)
  then show ?thesis by (simp add: MkdirAll_name_def case_prod_beta)
qed

lemma MkdirAll_name_exists:
  "Stat wd name s = Inr Dir \<Longrightarrow> MkdirAll_name wd name s = (None, log (MkdirAllNameEv name) s)"
  by (simp add: MkdirAll_name_def MkdirAll_rec_exists)

lemma trace_MkdirAll_name [simp]:
  "trace (snd (MkdirAll_name wd name s)) = trace s @ [MkdirAllNameEv name]"
  by (simp add: MkdirAll_name_def case_prod_beta)

lemma chg_MkdirAll_name: "chg {} UNIV s (snd (MkdirAll_name wd name s))"
  using chg_MkdirAll_rec [of s wd name] by (simp add: MkdirAll_name_def case_prod_beta chg_def)

lemma wf_MkdirAll_name: "wf_state s \<Longrightarrow> wf_state (snd (MkdirAll_name wd name s))"
  by (simp add: MkdirAll_name_def case_prod_beta wf_MkdirAll_rec wf_log)

lemma strict_prefix_append [simp]: "strict_prefix r (r @ t) \<longleftrightarrow> t \<noteq> []"
  by (auto simp: strict_prefix_def)

lemma cleaned_not_blocked:
  assumes wf: "wf_state s" and r: "lookup s r = Some Dir"
  shows "\<not> blocked (clean_root r s) (r @ x)"
proof
  assume "blocked (clean_root r s) (r @ x)"
  then obtain q where q: "prefix q (r @ x)" "is_file (lookup (clean_root r s) q)"
    by (auto simp: blocked_iff)
  from q(2) have ns: "\<not> strict_prefix r q" and f: "is_file (lookup s q)"
    by (auto simp: lookup_clean_root [OF wf r] split: if_splits)
  from q(1) have "prefix q r \<or> strict_prefix r q"
    by (metis prefix_append prefix_order.dual_order.order_iff_strict prefix_same_cases
        prefixI)
  with ns have "prefix q r" by simp
  with f have "blocked s r" by (auto simp: blocked_iff)
  with wf r show False by (simp add: wf_not_blocked)
qed

lemma generate_succeeds_clean:
  assumes root: "fst (MkdirAll_name (cwd env) (Root cfg) s) = None"
    and clean: "Clean cfg"
    and wf: "wf_state s"
    and t: "\<And>out name. (out, name) \<in> set template_manifest \<Longrightarrow> template_ok env cfg name"
  shows "fst (generate env cfg s) = None"
proof -
  let ?r = "Abs (cwd env) (Root cfg)"
  let ?s1 = "snd (MkdirAll_name (cwd env) (Root cfg) s)"
  let ?s2 = "clean_root ?r ?s1"
  from wf have wf1: "wf_state ?s1" by (rule wf_MkdirAll_name)
  from root have r1: "lookup ?s1 ?r = Some Dir" by (rule MkdirAll_name_ok)
  note l = lookup_clean_root [OF wf1 r1]
  have "fst (write_files env cfg ?r (make_dirs cfg ?r ?s2)) = None"
  proof (rule tail_ok [OF t])
    show "lookup ?s2 ?r = Some Dir" by (simp add: l r1)
    show "lookup ?s2 (?r @ [''go.mod'']) \<noteq> Some Dir" by (simp add: l)
    show "lookup ?s2 (?r @ [''Makefile'']) \<noteq> Some Dir" by (simp add: l)
    fix p assume p: "p \<in> set out_paths"
    then have "p \<noteq> []" by (auto simp: out_paths_def)
    then have "lookup ?s2 (?r @ p) \<noteq> Some Dir" by (simp add: l)
    moreover have "\<not> blocked ?s2 (?r @ butlast p)" by (rule cleaned_not_blocked [OF wf1 r1])
    ultimately show "fst (MkdirAll (?r @ butlast p) ?s2) = None \<and> lookup ?s2 (?r @ p) \<noteq> Some Dir"
      by (simp add: fst_MkdirAll)
  qed
  with root clean show ?thesis by (simp add: generate_root_ok)
qed

lemma generate_succeeds_kept:
  assumes root: "fst (MkdirAll_name (cwd env) (Root cfg) s) = None"
    and clean: "\<not> Clean cfg"
    and t: "\<And>out name. (out, name) \<in> set template_manifest \<Longrightarrow> template_ok env cfg name"
    and g: "lookup (snd (MkdirAll_name (cwd env) (Root cfg) s))
        (Abs (cwd env) (Root cfg) @ [''go.mod'']) \<noteq> Some Dir"
    and m: "lookup (snd (MkdirAll_name (cwd env) (Root cfg) s))
        (Abs (cwd env) (Root cfg) @ [''Makefile'']) \<noteq> Some Dir"
    and o: "\<And>p. p \<in> set out_paths \<Longrightarrow>
        \<not> blocked s (Abs (cwd env) (Root cfg) @ butlast p)
        \<and> lookup (snd (MkdirAll_name (cwd env) (Root cfg) s))
            (Abs (cwd env) (Root cfg) @ p) \<noteq> Some Dir"
  shows "fst (generate env cfg s) = None"
proof -
  let ?r = "Abs (cwd env) (Root cfg)"
  let ?s1 = "snd (MkdirAll_name (cwd env) (Root cfg) s)"
  note c = chg_MkdirAll_name [of s "cwd env" "Root cfg"]
  from root have r1: "lookup ?s1 ?r = Some Dir" by (rule MkdirAll_name_ok)
  have "fst (write_files env cfg ?r (make_dirs cfg ?r ?s1)) = None"
  proof (rule tail_ok [OF t])
    show "lookup ?s1 ?r = Some Dir" by (rule r1)
    show "lookup ?s1 (?r @ [''go.mod'']) \<noteq> Some Dir" by (rule g)
    show "lookup ?s1 (?r @ [''Makefile'']) \<noteq> Some Dir" by (rule m)
    fix p assume p: "p \<in> set out_paths"
    have "blocked ?s1 (?r @ butlast p) \<Longrightarrow> blocked s (?r @ butlast p)"
      by (rule chg_blocked_back [OF c]) simp_all
    with o [OF p] have "\<not> blocked ?s1 (?r @ butlast p)" by blast
    with o [OF p]
    show "fst (MkdirAll (?r @ butlast p) ?s1) = None \<and> lookup ?s1 (?r @ p) \<noteq> Some Dir"
      by (simp add: fst_MkdirAll)
  qed
  with root clean show ?thesis by (simp add: generate_root_ok)
qed

subsection \<open>The example run\<close>

lemma example_config: "main_config example_flags inp = (example_cfg, '''')"
  by (simp add: main_config_def example_flags_def example_cfg_def)

lemma example_wf: "wf_state example_fs"
  by code_simp

lemma example_cwd: "cwd example_env = [''w'']" "list_all valid_name (cwd example_env)"
  by (simp_all add: example_env_def fragment_env_def valid_name_def)

lemma example_root: "Abs (cwd example_env) (Root example_cfg) = [''w'', ''out'']"
  by code_simp

lemma example_root_ok: "fst (MkdirAll_name (cwd example_env) (Root example_cfg) example_fs) = None"
  by code_simp

lemma example_templates_ok:
  "(out, name) \<in> set template_manifest \<Longrightarrow> template_ok example_env example_cfg name"
proof -
  have "template_ok example_env example_cfg ''main.go.tmpl''"
    "template_ok example_env example_cfg ''router.go.tmpl''"
    "template_ok example_env example_cfg ''serverConfig.go.tmpl''"
    "template_ok example_env example_cfg ''logger.go.tmpl''"
    by code_simp+
  then show "(out, name) \<in> set template_manifest \<Longrightarrow> template_ok example_env example_cfg name"
    by (auto simp: template_manifest_def)
qed

lemma example_run_ok: "fst (generate example_env example_cfg example_fs) = None"
  by (rule generate_succeeds_clean [OF example_root_ok _ example_wf example_templates_ok])
    (simp add: example_cfg_def)

subsection \<open>Static files\<close>

lemma generate_ok_parts:
  assumes "generate env cfg s = (None, s')"
  obtains s3 s4 s5 where
    "fst (MkdirAll_name (cwd env) (Root cfg) s) = None"
    "s3 = make_dirs cfg (Abs (cwd env) (Root cfg))
       (if Clean cfg
        then clean_root (Abs (cwd env) (Root cfg)) (snd (MkdirAll_name (cwd env) (Root cfg) s))
        else snd (MkdirAll_name (cwd env) (Root cfg) s))"
    "writeGoMod (Abs (cwd env) (Root cfg)) (ModuleName cfg) s3 = (None, s4)"
    "writeMakefile (Abs (cwd env) (Root cfg)) (Port cfg) s4 = (None, s5)"
    "render_all env cfg (Abs (cwd env) (Root cfg)) template_manifest s5 = (None, s')"
proof -
  let ?r = "Abs (cwd env) (Root cfg)"
  have root: "fst (MkdirAll_name (cwd env) (Root cfg) s) = None"
  proof (cases "fst (MkdirAll_name (cwd env) (Root cfg) s)")
    case None
    then show ?thesis .
  next
    case (Some e)
    then have "generate env cfg s = (Some e, snd (MkdirAll_name (cwd env) (Root cfg) s))"
      by (intro generate_root_fails) (simp add: prod_eq_iff)
    with assms show ?thesis by simp
  qed
  define s3 where "s3 = make_dirs cfg ?r
       (if Clean cfg then clean_root ?r (snd (MkdirAll_name (cwd env) (Root cfg) s))
        else snd (MkdirAll_name (cwd env) (Root cfg) s))"
  from root assms have w: "write_files env cfg ?r s3 = (None, s')"
    by (simp add: generate_root_ok s3_def)
  define s4 where "s4 = snd (writeGoMod ?r (ModuleName cfg) s3)"
  define s5 where "s5 = snd (writeMakefile ?r (Port cfg) s4)"
  from w have 1: "fst (writeGoMod ?r (ModuleName cfg) s3) = None"
    by (cases "fst (writeGoMod ?r (ModuleName cfg) s3)")
      (auto simp: write_files_render case_prod_beta)
  with w have 2: "fst (writeMakefile ?r (Port cfg) s4) = None"
    by (cases "fst (writeMakefile ?r (Port cfg) s4)")
      (auto simp: write_files_render case_prod_beta s4_def)
  with 1 w have 3: "render_all env cfg ?r template_manifest s5 = (None, s')"
    by (simp add: write_files_render case_prod_beta s4_def s5_def)
  from 1 have w1: "writeGoMod ?r (ModuleName cfg) s3 = (None, s4)"
    by (simp add: s4_def prod_eq_iff)
  from 2 have w2: "writeMakefile ?r (Port cfg) s4 = (None, s5)"
    by (simp add: s5_def prod_eq_iff)
  from that [OF root s3_def w1 w2 3] show thesis .
qed

lemma static_not_output:
  "(out, name) \<in> set template_manifest \<Longrightarrow> Join r out \<noteq> r @ [''go.mod'']"
  "(out, name) \<in> set template_manifest \<Longrightarrow> Join r out \<noteq> r @ [''Makefile'']"
  by (auto simp: template_manifest_def Join_outputs)

subsection \<open>Runs that differ in the embedded templates only\<close>

lemma prepare_env:
  assumes "cwd env = cwd env'"
  shows "prepare env cfg s = prepare env' cfg s"
  unfolding prepare_def assms by (rule refl)

lemma writeTemplate_env:
  assumes "templateFS env (''templates/'' @ name) = templateFS env' (''templates/'' @ name)"
    and "Parse env = Parse env'" and "Execute env = Execute env'"
  shows "writeTemplate env r out name cfg s = writeTemplate env' r out name cfg s"
  unfolding writeTemplate_def assms by (rule refl)

lemma render_all_env:
  assumes "\<And>out name. (out, name) \<in> set es \<Longrightarrow>
      templateFS env (''templates/'' @ name) = templateFS env' (''templates/'' @ name)"
    and "Parse env = Parse env'" and "Execute env = Execute env'"
  shows "render_all env cfg r es s = render_all env' cfg r es s"
  using assms(1)
proof (induction es arbitrary: s)
  case Nil
  show ?case by simp
next
  case (Cons x es)
  obtain out name where x: "x = (out, name)" by (cases x)
  have "writeTemplate env r out name cfg s = writeTemplate env' r out name cfg s"
    by (rule writeTemplate_env [OF Cons.prems [of out name] assms(2,3)]) (simp add: x)
  moreover have "render_all env cfg r es t = render_all env' cfg r es t" for t
  proof (rule Cons.IH)
    fix out' name' assume "(out', name') \<in> set es"
    then have "(out', name') \<in> set (x # es)" by simp
    then show "templateFS env (''templates/'' @ name') = templateFS env' (''templates/'' @ name')"
      by (rule Cons.prems)
  qed
  ultimately show ?case by (simp add: x case_prod_beta split: option.splits)
qed

lemma generate_ok_prepare:
  assumes "fst (generate env cfg s) = None"
  shows "fst (prepare env cfg s) = None"
    and "fst (render_all env cfg (Abs (cwd env) (Root cfg)) template_manifest
           (snd (prepare env cfg s))) = None"
proof -
  show 1: "fst (prepare env cfg s) = None"
    using assms by (cases "fst (prepare env cfg s)") (auto simp: generate_prepare case_prod_beta)
  with assms show "fst (render_all env cfg (Abs (cwd env) (Root cfg)) template_manifest
           (snd (prepare env cfg s))) = None"
    by (simp add: generate_prepare case_prod_beta)
qed

lemma render_all_prefix_ok:
  "fst (render_all env cfg r (xs @ ys) s) = None \<Longrightarrow> fst (render_all env cfg r xs s) = None"
  by (cases "fst (render_all env cfg r xs s)") (auto simp: render_all_append case_prod_beta)

subsection \<open>The effects of a whole run\<close>

lemma make_path_dir_ok:
  assumes "fst (MkdirAll p s) = None"
  shows "lookup (make_path cfg s p) p = Some Dir"
proof -
  from assms have "lookup (snd (MkdirAll p s)) p = Some Dir" by (rule MkdirAll_makes_dir)
  then show ?thesis by (simp add: make_path_def Let_def lookup_WriteFile)
qed

lemma make_path_marker_ok:
  assumes "Gitkeep cfg" and "fst (MkdirAll p s) = None"
    and "lookup s (p @ [''.gitkeep'']) \<noteq> Some Dir"
  shows "lookup (make_path cfg s p) (p @ [''.gitkeep'']) = Some (File '''')"
proof -
  let ?s1 = "snd (MkdirAll p s)"
  from assms(2) have d: "lookup ?s1 p = Some Dir" by (rule MkdirAll_makes_dir)
  from assms(3) have "lookup ?s1 (p @ [''.gitkeep'']) \<noteq> Some Dir"
    by (simp add: lookup_MkdirAll)
  with d have "open_error (p @ [''.gitkeep'']) ?s1 = None" by (simp add: open_error_None)
  with assms(1) show ?thesis by (simp add: make_path_def Let_def lookup_WriteFile)
qed

lemma make_paths_dir_ok:
  assumes "p \<in> set ps" and "fst (MkdirAll p s) = None"
    and "\<And>p'. p' \<in> set ps \<Longrightarrow> \<not> prefix (p' @ [''.gitkeep'']) p"
  shows "lookup (make_paths cfg s ps) p = Some Dir"
proof -
  from assms(1) obtain pre post where ps: "ps = pre @ p # post"
    by (auto dest: split_list)
  let ?a = "make_paths cfg s pre"
  have c: "chg {p' @ [''.gitkeep''] |p'. Gitkeep cfg \<and> p' \<in> set pre} {q. \<exists>p' \<in> set pre. prefix q p'} s ?a"
    by (rule chg_make_paths)
  have "fst (MkdirAll p ?a) = None"
    by (rule MkdirAll_ok_chg [OF c _ assms(2)]) (use assms(3) ps in auto)
  then have "lookup (make_path cfg ?a p) p = Some Dir" by (rule make_path_dir_ok)
  then have "lookup (make_paths cfg (make_path cfg ?a p) post) p = Some Dir"
    by (rule chg_dir [OF chg_make_paths])
  with ps show ?thesis by simp
qed

lemma make_paths_marker_ok:
  assumes "Gitkeep cfg" and "p \<in> set ps" and "fst (MkdirAll p s) = None"
    and "lookup s (p @ [''.gitkeep'']) \<noteq> Some Dir"
    and "\<And>p'. p' \<in> set ps \<Longrightarrow> \<not> prefix (p' @ [''.gitkeep'']) p"
    and "\<And>p'. p' \<in> set ps \<Longrightarrow> \<not> prefix (p @ [''.gitkeep'']) p'"
  shows "lookup (make_paths cfg s ps) (p @ [''.gitkeep'']) = Some (File '''')"
proof -
  let ?m = "p @ [''.gitkeep'']"
  from assms(2) obtain pre post where ps: "ps = pre @ p # post" and last: "p \<notin> set post"
    by (auto dest: split_list_last)
  let ?a = "make_paths cfg s pre"
  let ?F = "{p' @ [''.gitkeep''] |p'. Gitkeep cfg \<and> p' \<in> set pre}"
  let ?D = "{q. \<exists>p' \<in> set pre. prefix q p'}"
  have c: "chg ?F ?D s ?a" by (rule chg_make_paths)
  have ok: "fst (MkdirAll p ?a) = None"
    by (rule MkdirAll_ok_chg [OF c _ assms(3)]) (use assms(5) ps in auto)
  have "?m \<notin> ?D" using assms(6) ps by auto
  with c have "lookup ?a ?m \<noteq> Some Dir"
    using assms(4) by (rule chg_not_dir)
  with assms(1) ok have 1: "lookup (make_path cfg ?a p) ?m = Some (File '''')"
    by (rule make_path_marker_ok)
  have 2: "?m \<notin> {p' @ [''.gitkeep''] |p'. Gitkeep cfg \<and> p' \<in> set post}"
    using last by auto
  have "lookup (make_paths cfg (make_path cfg ?a p) post) ?m = Some (File '''')"
    by (rule chg_keeps [OF chg_make_paths 2 1])
  with ps show ?thesis by simp
qed

lemma marker_not_above:
  assumes "d \<in> set dir_paths"
  shows "\<not> prefix (r @ d' @ [''.gitkeep'']) (r @ d)"
  using file_not_above_dir [OF assms, of "d' @ [''.gitkeep'']" r] by (simp add: file_names_def)

lemma make_dirs_dir_ok:
  assumes "d \<in> set dir_paths" and "fst (MkdirAll (r @ d) s) = None"
  shows "lookup (make_dirs cfg r s) (r @ d) = Some Dir"
  unfolding make_dirs_paths
proof (rule make_paths_dir_ok)
  from assms(1) show "r @ d \<in> set (map ((@) r) dir_paths)" by simp
  from assms(2) show "fst (MkdirAll (r @ d) s) = None" .
  fix p' assume "p' \<in> set (map ((@) r) dir_paths)"
  then obtain d' where "p' = r @ d'" by auto
  with marker_not_above [OF assms(1), of r d']
  show "\<not> prefix (p' @ [''.gitkeep'']) (r @ d)" by simp
qed

lemma make_dirs_marker_ok:
  assumes "Gitkeep cfg" and "d \<in> set dir_paths" and "fst (MkdirAll (r @ d) s) = None"
    and "lookup s (r @ d @ [''.gitkeep'']) \<noteq> Some Dir"
  shows "lookup (make_dirs cfg r s) (r @ d @ [''.gitkeep'']) = Some (File '''')"
proof -
  have "lookup (make_paths cfg s (map ((@) r) dir_paths)) ((r @ d) @ [''.gitkeep'']) = Some (File '''')"
  proof (rule make_paths_marker_ok [OF assms(1)])
    from assms(2) show "r @ d \<in> set (map ((@) r) dir_paths)" by simp
    from assms(3) show "fst (MkdirAll (r @ d) s) = None" .
    from assms(4) show "lookup s ((r @ d) @ [''.gitkeep'']) \<noteq> Some Dir" by simp
  next
    fix p' assume "p' \<in> set (map ((@) r) dir_paths)"
    then obtain d' where d': "d' \<in> set dir_paths" "p' = r @ d'" by auto
    with marker_not_above [OF assms(2), of r d']
    show "\<not> prefix (p' @ [''.gitkeep'']) (r @ d)" by simp
    from d' marker_not_above [OF d'(1), of r d]
    show "\<not> prefix ((r @ d) @ [''.gitkeep'']) p'" by simp
  qed
  then show ?thesis by (simp add: make_dirs_paths)
qed

text \<open>A failing \<^verbatim>\<open>MkdirAll\<close> keeps failing.\<close>

lemma MkdirAll_cong:
  assumes "lookup s = lookup t"
  shows "fst (MkdirAll p s) = fst (MkdirAll p t)"
    and "lookup (snd (MkdirAll p s)) = lookup (snd (MkdirAll p t))"
proof -
  from assms have b: "blocked s = blocked t" by (simp add: blocked_def fun_eq_iff)
  show "fst (MkdirAll p s) = fst (MkdirAll p t)" by (simp add: MkdirAll_error assms)
  show "lookup (snd (MkdirAll p s)) = lookup (snd (MkdirAll p t))"
    by (rule ext) (simp add: lookup_MkdirAll assms b)
qed

lemma MkdirAll_fails_lookup:
  "fst (MkdirAll p s) \<noteq> None \<Longrightarrow> lookup (snd (MkdirAll p s)) = lookup s"
  by (rule ext) (auto simp: lookup_MkdirAll fst_MkdirAll)

lemma MkdirAll_fails_chg:
  assumes c: "chg F D s s'" and f: "fst (MkdirAll p s) \<noteq> None" and d: "p \<notin> D"
  shows "fst (MkdirAll p s') \<noteq> None"
proof -
  from f have nd: "lookup s p \<noteq> Some Dir" and b: "blocked s p" by (auto simp: fst_MkdirAll)
  from c d nd have "lookup s' p \<noteq> Some Dir" by (rule chg_not_dir)
  moreover from c b have "blocked s' p" by (rule chg_blocked)
  ultimately show ?thesis by (simp add: fst_MkdirAll)
qed

lemma make_path_fails:
  assumes f: "fst (MkdirAll p s) \<noteq> None" and n: "prefix p p' \<Longrightarrow> p' = p"
  shows "fst (MkdirAll p (make_path cfg s p')) \<noteq> None"
proof (cases "p' = p")
  case True
  from f have l: "lookup (snd (MkdirAll p s)) = lookup s" by (rule MkdirAll_fails_lookup)
  from f have "lookup s p \<noteq> Some Dir" by (auto simp: fst_MkdirAll)
  then have "open_error (p @ [''.gitkeep'']) (snd (MkdirAll p s)) \<noteq> None"
    by (simp add: open_error_None l)
  then obtain e where "open_error (p @ [''.gitkeep'']) (snd (MkdirAll p s)) = Some e" by auto
  then have "lookup (snd (WriteFile (p @ [''.gitkeep'']) '''' (snd (MkdirAll p s)))) = lookup s"
    by (intro ext) (simp add: lookup_WriteFile l)
  with l have "lookup (make_path cfg s p) = lookup s" by (simp add: make_path_def Let_def)
  then have "fst (MkdirAll p (make_path cfg s p)) = fst (MkdirAll p s)" by (rule MkdirAll_cong(1))
  with f True show ?thesis by simp
next
  case False
  with n have "p \<notin> {q. prefix q p'}" by auto
  with chg_make_path f show ?thesis by (rule MkdirAll_fails_chg)
qed

lemma make_paths_fails:
  assumes "fst (MkdirAll p s) \<noteq> None" and "\<And>p'. p' \<in> set ps \<Longrightarrow> prefix p p' \<Longrightarrow> p' = p"
  shows "fst (MkdirAll p (make_paths cfg s ps)) \<noteq> None"
  using assms
proof (induction ps arbitrary: s)
  case Nil
  then show ?case by simp
next
  case (Cons p' ps)
  have "fst (MkdirAll p (make_path cfg s p')) \<noteq> None"
    by (rule make_path_fails [OF Cons.prems(1)]) (simp add: Cons.prems(2))
  then have "fst (MkdirAll p (make_paths cfg (make_path cfg s p') ps)) \<noteq> None"
    by (rule Cons.IH) (simp add: Cons.prems(2))
  then show ?case by simp
qed

lemma writeTemplate_fails:
  assumes f: "fst (MkdirAll p s) \<noteq> None" and n: "prefix p (Dir_of (Join r out)) \<Longrightarrow> Dir_of (Join r out) = p"
  shows "fst (MkdirAll p (snd (writeTemplate env r out name cfg s))) \<noteq> None
    \<and> (Dir_of (Join r out) = p \<longrightarrow> fst (writeTemplate env r out name cfg s) \<noteq> None)"
proof (cases "Dir_of (Join r out) = p")
  case False
  with n have "p \<notin> {q. prefix q (Dir_of (Join r out))}" by auto
  with chg_writeTemplate f have "fst (MkdirAll p (snd (writeTemplate env r out name cfg s))) \<noteq> None"
    by (rule MkdirAll_fails_chg)
  with False show ?thesis by simp
next
  case True
  let ?s1 = "snd (MkdirAll p s)"
  from f have l: "lookup ?s1 = lookup s" by (rule MkdirAll_fails_lookup)
  from f have nd: "lookup s p \<noteq> Some Dir" by (auto simp: fst_MkdirAll)
  have oe: "open_error (Join r out) ?s1 \<noteq> None"
    using nd True by (simp add: open_error_None l Dir_of_def)
  have "fst (writeTemplate env r out name cfg s) \<noteq> None
      \<and> lookup (snd (writeTemplate env r out name cfg s)) = lookup s"
  proof (cases "templateFS env (''templates/'' @ name)")
    case None
    then show ?thesis by (simp add: writeTemplate_def)
  next
    case (Some src)
    show ?thesis
    proof (cases "Parse env name src")
      case (Inl e)
      with Some show ?thesis by (simp add: writeTemplate_def)
    next
      case (Inr t)
      from oe obtain e where e: "open_error (Join r out) ?s1 = Some e" by auto
      then have "lookup (snd (Create (Join r out) ?s1)) = lookup s"
        by (intro ext) (simp add: lookup_Create l)
      with e show ?thesis
        by (simp add: writeTemplate_parsed [OF Some Inr] True)
    qed
  qed
  then have w: "fst (writeTemplate env r out name cfg s) \<noteq> None"
    and l2: "lookup (snd (writeTemplate env r out name cfg s)) = lookup s"
    by simp_all
  from l2 have "fst (MkdirAll p (snd (writeTemplate env r out name cfg s))) = fst (MkdirAll p s)"
    by (rule MkdirAll_cong(1))
  with f w show ?thesis by simp
qed

lemma render_all_fails:
  assumes "fst (MkdirAll p s) \<noteq> None"
    and "\<And>out name. (out, name) \<in> set es \<Longrightarrow> prefix p (Dir_of (Join r out)) \<Longrightarrow> Dir_of (Join r out) = p"
    and "(out, name) \<in> set es" and "Dir_of (Join r out) = p"
  shows "fst (render_all env cfg r es s) \<noteq> None"
  using assms
proof (induction es arbitrary: s)
  case Nil
  then show ?case by simp
next
  case (Cons x es)
  obtain out' name' where x: "x = (out', name')" by (cases x)
  have n: "prefix p (Dir_of (Join r out')) \<Longrightarrow> Dir_of (Join r out') = p"
    by (rule Cons.prems(2) [of out' name']) (simp add: x)
  note w = writeTemplate_fails [OF Cons.prems(1) n, of env name' cfg]
  show ?case
  proof (cases "fst (writeTemplate env r out' name' cfg s)")
    case (Some e)
    then show ?thesis by (simp add: x case_prod_beta)
  next
    case None
    with w have ne: "Dir_of (Join r out') \<noteq> p" by auto
    with Cons.prems(3,4) x have m: "(out, name) \<in> set es" by auto
    have "fst (render_all env cfg r es (snd (writeTemplate env r out' name' cfg s))) \<noteq> None"
    proof (rule Cons.IH [OF _ _ m Cons.prems(4)])
      from w show "fst (MkdirAll p (snd (writeTemplate env r out' name' cfg s))) \<noteq> None" by simp
      fix out2 name2 assume "(out2, name2) \<in> set es"
      then have "(out2, name2) \<in> set (x # es)" by simp
      then show "prefix p (Dir_of (Join r out2)) \<Longrightarrow> Dir_of (Join r out2) = p"
        by (rule Cons.prems(2))
    qed
    with None show ?thesis by (simp add: x case_prod_beta)
  qed
qed

lemma dir_paths_antichain:
  assumes "d \<in> set dir_paths" and "d' \<in> set dir_paths" and "prefix d d'"
  shows "d' = d"
proof -
  have len: "x \<noteq> [] \<and> length x =
      (if hd x = ''cmd'' \<or> hd x = ''recievers'' then 1 else if hd x = ''services'' then 3 else 2)"
    if "x \<in> set dir_paths" for x
  proof -
    have "list_all (\<lambda>x. x \<noteq> [] \<and> length x =
      (if hd x = ''cmd'' \<or> hd x = ''recievers'' then 1 else if hd x = ''services'' then 3 else 2))
      dir_paths"
      by (simp add: dir_paths_def)
    from this that show ?thesis unfolding list_all_iff by (rule bspec)
  qed
  from assms(3) obtain zs where zs: "d' = d @ zs" by (auto simp: prefix_def)
  from len [OF assms(1)] have "hd d' = hd d" by (simp add: zs)
  with len [OF assms(1)] len [OF assms(2)] have "length d' = length d" by simp
  with zs show ?thesis by simp
qed

lemma tail_fails:
  assumes p: "p \<in> set out_paths" and f: "fst (MkdirAll (r @ butlast p) s) \<noteq> None"
  shows "fst (write_files env cfg r (make_dirs cfg r s)) \<noteq> None"
proof -
  let ?d = "r @ butlast p"
  from p have d: "butlast p \<in> set dir_paths" by (rule out_paths_dirs)
  from p have ne: "p \<noteq> []" by (auto simp: out_paths_def)
  let ?s3 = "make_dirs cfg r s"
  have 3: "fst (MkdirAll ?d ?s3) \<noteq> None"
    unfolding make_dirs_paths
  proof (rule make_paths_fails [OF f])
    fix p' assume "p' \<in> set (map ((@) r) dir_paths)" "prefix ?d p'"
    then obtain d' where "d' \<in> set dir_paths" "p' = r @ d'" "prefix (butlast p) d'" by auto
    with dir_paths_antichain [OF d] show "p' = ?d" by auto
  qed
  let ?s4 = "snd (writeGoMod r (ModuleName cfg) ?s3)"
  let ?s5 = "snd (writeMakefile r (Port cfg) ?s4)"
  have c4: "chg {r @ [''go.mod'']} {} ?s3 ?s4"
    by (simp add: writeGoMod_def Join_statics chg_WriteFile)
  have c5: "chg {r @ [''Makefile'']} {} ?s4 ?s5"
    by (simp add: writeMakefile_def Join_statics chg_WriteFile)
  from c4 3 have 4: "fst (MkdirAll ?d ?s4) \<noteq> None" by (rule MkdirAll_fails_chg) simp
  with c5 have 5: "fst (MkdirAll ?d ?s5) \<noteq> None" by (rule MkdirAll_fails_chg) simp
  from p have "r @ p \<in> set (map (\<lambda>(out, name). Join r out) template_manifest)"
    by (simp add: Join_manifest)
  then obtain out name where e: "(out, name) \<in> set template_manifest" and j: "Join r out = r @ p"
    by auto
  from ne j have dj: "Dir_of (Join r out) = ?d" by (simp add: Dir_of_def butlast_append)
  have "fst (render_all env cfg r template_manifest ?s5) \<noteq> None"
  proof (rule render_all_fails [OF 5 _ e dj])
    fix out' name' assume "(out', name') \<in> set template_manifest"
    then obtain p' where p': "p' \<in> set out_paths" "Join r out' = r @ p'"
      using Join_manifest_entry by blast
    then have "p' \<noteq> []" by (auto simp: out_paths_def)
    then have dj': "Dir_of (Join r out') = r @ butlast p'"
      by (simp add: p' Dir_of_def butlast_append)
    assume "prefix ?d (Dir_of (Join r out'))"
    then have "prefix (butlast p) (butlast p')" by (simp add: dj')
    with dir_paths_antichain [OF d out_paths_dirs [OF p'(1)]] show "Dir_of (Join r out') = ?d"
      by (simp add: dj')
  qed
  then show ?thesis by (auto simp: write_files_render case_prod_beta split: option.splits)
qed

lemma chg_tail:
  "chg ({r @ d @ [''.gitkeep''] |d. Gitkeep cfg \<and> d \<in> set dir_paths}
         \<union> {r @ [''go.mod''], r @ [''Makefile'']} \<union> {r @ p |p. p \<in> set out_paths})
     {q. \<exists>d \<in> set dir_paths. prefix q (r @ d)} s
     (snd (write_files env cfg r (make_dirs cfg r s)))"
proof -
  have 1: "chg ({r @ d @ [''.gitkeep''] |d. Gitkeep cfg \<and> d \<in> set dir_paths}
         \<union> {r @ [''go.mod''], r @ [''Makefile'']} \<union> {r @ p |p. p \<in> set out_paths})
     {q. \<exists>d \<in> set dir_paths. prefix q (r @ d)} s (make_dirs cfg r s)"
    by (rule chg_mono [OF chg_make_dirs]) auto
  have 2: "chg ({r @ d @ [''.gitkeep''] |d. Gitkeep cfg \<and> d \<in> set dir_paths}
         \<union> {r @ [''go.mod''], r @ [''Makefile'']} \<union> {r @ p |p. p \<in> set out_paths})
     {q. \<exists>d \<in> set dir_paths. prefix q (r @ d)} (make_dirs cfg r s)
     (snd (write_files env cfg r (make_dirs cfg r s)))"
    by (rule chg_mono [OF chg_write_files]) (use out_paths_dirs in auto)
  from 1 2 show ?thesis by (rule chg_trans)
qed

lemma in_generated_paths:
  "q \<in> set generated_paths \<longleftrightarrow>
     (\<exists>d \<in> set dir_paths. prefix q d \<and> q \<noteq> []) \<or> (\<exists>d \<in> set dir_paths. q = d @ [''.gitkeep''])
     \<or> q = [''go.mod''] \<or> q = [''Makefile''] \<or> q \<in> set out_paths"
proof -
  have "set (tl (prefixes d)) = {q. prefix q d \<and> q \<noteq> []}" for d :: path
    by (cases d) (auto simp: Cons_prefix_Cons prefix_Cons)
  then show ?thesis by (auto simp: generated_paths_def)
qed

lemma not_generated:
  assumes "q \<notin> set (map ((@) r) generated_paths)"
  shows "q \<notin> {r @ d @ [''.gitkeep''] |d. Gitkeep cfg \<and> d \<in> set dir_paths}
         \<union> {r @ [''go.mod''], r @ [''Makefile'']} \<union> {r @ p |p. p \<in> set out_paths}"
    and "strict_prefix r q \<Longrightarrow> q \<notin> {q. \<exists>d \<in> set dir_paths. prefix q (r @ d)}"
proof -
  from assms have n: "\<And>x. x \<in> set generated_paths \<Longrightarrow> q \<noteq> r @ x" by auto
  show "q \<notin> {r @ d @ [''.gitkeep''] |d. Gitkeep cfg \<and> d \<in> set dir_paths}
         \<union> {r @ [''go.mod''], r @ [''Makefile'']} \<union> {r @ p |p. p \<in> set out_paths}"
    using n by (auto simp: in_generated_paths)
  show "q \<notin> {q. \<exists>d \<in> set dir_paths. prefix q (r @ d)}" if "strict_prefix r q"
  proof
    assume "q \<in> {q. \<exists>d \<in> set dir_paths. prefix q (r @ d)}"
    then obtain d where d: "d \<in> set dir_paths" "prefix q (r @ d)" by auto
    from that obtain x where x: "q = r @ x" "x \<noteq> []" by (auto simp: strict_prefix_def prefix_def)
    with d have "prefix x d" by simp
    with d(1) x(2) have "x \<in> set generated_paths" by (auto simp: in_generated_paths)
    with n x(1) show False by blast
  qed
qed

lemma trace_extends_writeTemplate:
  "prefix (trace s) (trace (snd (writeTemplate env r out name cfg s)))"
proof (cases "templateFS env (''templates/'' @ name)")
  case None
  then show ?thesis by (simp add: writeTemplate_def)
next
  case (Some src)
  show ?thesis
  proof (cases "Parse env name src")
    case (Inl e)
    with Some show ?thesis by (simp add: writeTemplate_def)
  next
    case (Inr t)
    show ?thesis
      by (simp add: writeTemplate_parsed [OF Some Inr] split: option.splits)
  qed
qed

lemma trace_extends_render_all:
  "prefix (trace s) (trace (snd (render_all env cfg r es s)))"
proof (induction es arbitrary: s)
  case Nil
  show ?case by simp
next
  case (Cons x es)
  obtain out name where x: "x = (out, name)" by (cases x)
  have 1: "prefix (trace s) (trace (snd (writeTemplate env r out name cfg s)))"
    by (rule trace_extends_writeTemplate)
  have 2: "prefix (trace (snd (writeTemplate env r out name cfg s)))
      (trace (snd (render_all env cfg r es (snd (writeTemplate env r out name cfg s)))))"
    by (rule Cons.IH)
  from 1 2 have "prefix (trace s)
      (trace (snd (render_all env cfg r es (snd (writeTemplate env r out name cfg s)))))"
    by (rule prefix_order.trans)
  with 1 show ?case by (simp add: x case_prod_beta split: option.splits)
qed

lemma trace_extends_write_files:
  "prefix (trace s) (trace (snd (write_files env cfg r s)))"
proof -
  let ?s1 = "snd (writeGoMod r (ModuleName cfg) s)"
  let ?s2 = "snd (writeMakefile r (Port cfg) ?s1)"
  have 1: "prefix (trace s) (trace ?s1)" by (simp add: writeGoMod_def)
  have 2: "prefix (trace ?s1) (trace ?s2)" by (simp add: writeMakefile_def)
  have 3: "prefix (trace ?s2) (trace (snd (render_all env cfg r template_manifest ?s2)))"
    by (rule trace_extends_render_all)
  from 1 2 have 12: "prefix (trace s) (trace ?s2)" by (rule prefix_order.trans)
  from 12 3 have 123: "prefix (trace s) (trace (snd (render_all env cfg r template_manifest ?s2)))"
    by (rule prefix_order.trans)
  from 1 12 123 show ?thesis
    by (simp add: write_files_render case_prod_beta split: option.splits)
qed

lemma trace_make_dirs:
  "trace (make_dirs cfg r s) =
     trace s @ concat (map (\<lambda>dir. MkdirAllEv (Join r dir)
        # (if Gitkeep cfg then [WriteFileEv (Join (Join r dir) ''.gitkeep'') ''''] else [])) dirs)"
proof -
  have "trace (foldl (make_dir cfg r) s ds) =
     trace s @ concat (map (\<lambda>dir. MkdirAllEv (Join r dir)
        # (if Gitkeep cfg then [WriteFileEv (Join (Join r dir) ''.gitkeep'') ''''] else [])) ds)" for ds
    by (induction ds arbitrary: s) (simp_all add: make_dir_def Let_def)
  then show ?thesis by (simp add: make_dirs_def)
qed

lemma dirs_paths_entry: "dir \<in> set dirs \<Longrightarrow> \<exists>d \<in> set dir_paths. Join r dir = r @ d"
proof -
  assume "dir \<in> set dirs"
  then have "Join r dir \<in> set (map (Join r) dirs)" by simp
  then show ?thesis by (auto simp: Join_dirs)
qed

subsection \<open>The loop over the directories and what comes after it\<close>

lemma generate_before_dirs:
  assumes "fst (MkdirAll_name (cwd env) (Root cfg) s) = None"
  shows "generate env cfg s =
    write_files env cfg (Abs (cwd env) (Root cfg))
      (make_dirs cfg (Abs (cwd env) (Root cfg)) (before_dirs env cfg s))"
  unfolding before_dirs_def by (rule generate_root_ok [OF assms])

lemma chg_same: "lookup s' = lookup s \<Longrightarrow> chg F D s s'"
  by (simp add: chg_def)

lemma lookup_files: "files s' = files s \<Longrightarrow> lookup s' = lookup s"
  by (rule ext) (simp add: lookup_def)

lemma generate_root_fails_chg:
  assumes "fst (MkdirAll_name (cwd env) (Root cfg) s) \<noteq> None"
  shows "chg {} UNIV s (snd (generate env cfg s))"
proof -
  from assms obtain e where "MkdirAll_name (cwd env) (Root cfg) s
      = (Some e, snd (MkdirAll_name (cwd env) (Root cfg) s))"
    by (cases "MkdirAll_name (cwd env) (Root cfg) s") auto
  then have "generate env cfg s = (Some e, snd (MkdirAll_name (cwd env) (Root cfg) s))"
    by (rule generate_root_fails)
  with chg_MkdirAll_name [of s "cwd env" "Root cfg"] show ?thesis by simp
qed

lemma not_prefix_longer [simp]: "x \<noteq> [] \<Longrightarrow> \<not> prefix (r @ x) r"
  by (auto simp: prefix_def)

lemma before_dirs_clean:
  assumes root: "fst (MkdirAll_name (cwd env) (Root cfg) s) = None"
    and wf: "wf_state s" and clean: "Clean cfg"
  shows "\<not> blocked (before_dirs env cfg s) (Abs (cwd env) (Root cfg) @ x)"
    and "x \<noteq> [] \<Longrightarrow> lookup (before_dirs env cfg s) (Abs (cwd env) (Root cfg) @ x) = None"
    and "lookup (before_dirs env cfg s) q =
      (if strict_prefix (Abs (cwd env) (Root cfg)) q then None
       else lookup (snd (MkdirAll_name (cwd env) (Root cfg) s)) q)"
proof -
  let ?r = "Abs (cwd env) (Root cfg)"
  let ?s1 = "snd (MkdirAll_name (cwd env) (Root cfg) s)"
  from wf have wf1: "wf_state ?s1" by (rule wf_MkdirAll_name)
  from root have r1: "lookup ?s1 ?r = Some Dir" by (rule MkdirAll_name_ok)
  from wf1 r1 have "\<not> blocked (clean_root ?r ?s1) (?r @ x)" by (rule cleaned_not_blocked)
  with clean show "\<not> blocked (before_dirs env cfg s) (?r @ x)" by (simp add: before_dirs_def)
  from clean show l: "lookup (before_dirs env cfg s) q =
      (if strict_prefix ?r q then None else lookup ?s1 q)" for q
    by (simp add: before_dirs_def lookup_clean_root [OF wf1 r1])
  show "lookup (before_dirs env cfg s) (?r @ x) = None" if "x \<noteq> []"
    using that by (simp add: l)
qed

lemma before_dirs_ok:
  assumes root: "fst (MkdirAll_name (cwd env) (Root cfg) s) = None"
    and free: "Clean cfg \<and> wf_state s
      \<or> \<not> Clean cfg \<and> \<not> blocked (snd (MkdirAll_name (cwd env) (Root cfg) s))
            (Abs (cwd env) (Root cfg) @ x)"
  shows "fst (MkdirAll (Abs (cwd env) (Root cfg) @ x) (before_dirs env cfg s)) = None"
proof (cases "Clean cfg")
  case True
  with free have "wf_state s" by simp
  with root have "\<not> blocked (before_dirs env cfg s) (Abs (cwd env) (Root cfg) @ x)"
    using True by (rule before_dirs_clean(1))
  then show ?thesis by (simp add: fst_MkdirAll)
next
  case False
  with free show ?thesis by (simp add: before_dirs_def fst_MkdirAll)
qed

lemma before_dirs_not_dir:
  assumes root: "fst (MkdirAll_name (cwd env) (Root cfg) s) = None"
    and x: "x \<noteq> []"
    and free: "Clean cfg \<and> wf_state s
      \<or> \<not> Clean cfg \<and> lookup (snd (MkdirAll_name (cwd env) (Root cfg) s))
            (Abs (cwd env) (Root cfg) @ x) \<noteq> Some Dir"
  shows "lookup (before_dirs env cfg s) (Abs (cwd env) (Root cfg) @ x) \<noteq> Some Dir"
proof (cases "Clean cfg")
  case True
  with free have "wf_state s" by simp
  with root have "lookup (before_dirs env cfg s) (Abs (cwd env) (Root cfg) @ x) = None"
    using True x by (rule before_dirs_clean(2))
  then show ?thesis by simp
next
  case False
  with free show ?thesis by (simp add: before_dirs_def)
qed

lemma out_paths_last: "p \<in> set out_paths \<Longrightarrow> p \<noteq> [] \<and> last p \<noteq> ''.gitkeep''"
  by (auto simp: out_paths_def)

lemma marker_name_not_written:
  assumes "q \<noteq> []" and "last q = ''.gitkeep''"
  shows "q \<notin> {r @ [''go.mod''], r @ [''Makefile'']} \<union> {r @ p |p. p \<in> set out_paths}"
proof
  assume "q \<in> {r @ [''go.mod''], r @ [''Makefile'']} \<union> {r @ p |p. p \<in> set out_paths}"
  then consider "q = r @ [''go.mod'']" | "q = r @ [''Makefile'']"
    | p where "p \<in> set out_paths" "q = r @ p" by auto
  then show False
  proof cases
    case 1
    with assms(2) show False by simp
  next
    case 2
    with assms(2) show False by simp
  next
    case 3
    with out_paths_last [of p] assms(2) show False by simp
  qed
qed

lemma marker_not_written_later:
  "r @ d @ [''.gitkeep'']
     \<notin> {r @ [''go.mod''], r @ [''Makefile'']} \<union> {r @ p |p. p \<in> set out_paths}"
  by (rule marker_name_not_written) simp_all

lemma generate_dir_created:
  assumes root: "fst (MkdirAll_name (cwd env) (Root cfg) s) = None"
    and d: "d \<in> set dir_paths"
    and free: "Clean cfg \<and> wf_state s
      \<or> \<not> Clean cfg \<and> \<not> blocked (snd (MkdirAll_name (cwd env) (Root cfg) s))
            (Abs (cwd env) (Root cfg) @ d)"
  shows "lookup (snd (generate env cfg s)) (Abs (cwd env) (Root cfg) @ d) = Some Dir"
proof -
  let ?r = "Abs (cwd env) (Root cfg)"
  from root free have "fst (MkdirAll (?r @ d) (before_dirs env cfg s)) = None"
    by (rule before_dirs_ok)
  with d have "lookup (make_dirs cfg ?r (before_dirs env cfg s)) (?r @ d) = Some Dir"
    by (rule make_dirs_dir_ok)
  with chg_write_files
  have "lookup (snd (write_files env cfg ?r (make_dirs cfg ?r (before_dirs env cfg s)))) (?r @ d)
      = Some Dir"
    by (rule chg_dir)
  then show ?thesis by (simp add: generate_before_dirs [OF root])
qed

lemma generate_marker_written:
  assumes root: "fst (MkdirAll_name (cwd env) (Root cfg) s) = None"
    and g: "Gitkeep cfg" and d: "d \<in> set dir_paths"
    and ok: "fst (MkdirAll (Abs (cwd env) (Root cfg) @ d) (before_dirs env cfg s)) = None"
    and nd: "lookup (before_dirs env cfg s) (Abs (cwd env) (Root cfg) @ d @ [''.gitkeep''])
        \<noteq> Some Dir"
  shows "lookup (snd (generate env cfg s)) (Abs (cwd env) (Root cfg) @ d @ [''.gitkeep''])
      = Some (File '''')"
proof -
  let ?r = "Abs (cwd env) (Root cfg)"
  let ?s2 = "before_dirs env cfg s"
  from g d ok nd
  have "lookup (make_dirs cfg ?r ?s2) (?r @ d @ [''.gitkeep'']) = Some (File '''')"
    by (rule make_dirs_marker_ok)
  with chg_write_files marker_not_written_later
  have "lookup (snd (write_files env cfg ?r (make_dirs cfg ?r ?s2))) (?r @ d @ [''.gitkeep''])
      = Some (File '''')"
    by (rule chg_keeps)
  then show ?thesis by (simp add: generate_before_dirs [OF root])
qed

lemma generate_dir_events:
  assumes root: "fst (MkdirAll_name (cwd env) (Root cfg) s) = None"
  shows "prefix
     (trace (before_dirs env cfg s)
      @ concat (map (\<lambda>dir. MkdirAllEv (Join (Abs (cwd env) (Root cfg)) dir)
          # (if Gitkeep cfg
             then [WriteFileEv (Join (Join (Abs (cwd env) (Root cfg)) dir) ''.gitkeep'') '''']
             else [])) dirs))
     (trace (snd (generate env cfg s)))"
  unfolding generate_before_dirs [OF root] trace_make_dirs [symmetric]
  by (rule trace_extends_write_files)

lemma clean_root_keeps_nothing_new:
  "lookup (clean_root r s) q = Some n \<Longrightarrow> lookup s q = Some n"
  by (simp add: clean_root_fold lookup_fold_RemoveAll split: if_splits)

lemma generate_no_marker:
  assumes g: "\<not> Gitkeep cfg" and q: "q \<noteq> []" "last q = ''.gitkeep''"
    and f: "lookup (snd (generate env cfg s)) q = Some (File c)"
  shows "lookup s q = Some (File c)"
proof (cases "fst (MkdirAll_name (cwd env) (Root cfg) s) = None")
  case False
  then have "chg {} UNIV s (snd (generate env cfg s))" by (rule generate_root_fails_chg)
  from chg_file_back [OF this _ f] show ?thesis by simp
next
  case True
  let ?r = "Abs (cwd env) (Root cfg)"
  let ?s1 = "snd (MkdirAll_name (cwd env) (Root cfg) s)"
  let ?s2 = "before_dirs env cfg s"
  let ?s3 = "make_dirs cfg ?r ?s2"
  from q have nf: "q \<notin> {?r @ [''go.mod''], ?r @ [''Makefile'']} \<union> {?r @ p |p. p \<in> set out_paths}"
    by (rule marker_name_not_written)
  from f have "lookup (snd (write_files env cfg ?r ?s3)) q = Some (File c)"
    by (simp add: generate_before_dirs [OF True])
  with chg_write_files nf have 3: "lookup ?s3 q = Some (File c)" by (rule chg_file_back)
  from g have "q \<notin> {?r @ d @ [''.gitkeep''] |d. Gitkeep cfg \<and> d \<in> set dir_paths}" by simp
  with chg_make_dirs have 2: "lookup ?s2 q = Some (File c)" using 3 by (rule chg_file_back)
  then have 1: "lookup ?s1 q = Some (File c)"
    by (auto simp: before_dirs_def dest: clean_root_keeps_nothing_new split: if_splits)
  from chg_file_back [OF chg_MkdirAll_name _ 1] show ?thesis by simp
qed

lemma removals_simps [simp]:
  "removals [] = []"
  "removals (t @ u) = removals t @ removals u"
  "removals (MkdirAllNameEv n # t) = removals t"
  "removals (MkdirAllEv p # t) = removals t"
  "removals (ReadDirEv p # t) = removals t"
  "removals (RemoveAllEv p # t) = p # removals t"
  "removals (WriteFileEv p c # t) = removals t"
  "removals (CreateEv p # t) = removals t"
  "removals (WriteEv p c # t) = removals t"
  by (simp_all add: removals_def)

lemma removals_RemoveAll [simp]: "removals (map RemoveAllEv ps) = ps"
  by (induction ps) simp_all

lemma removals_writeTemplate [simp]:
  "removals (trace (snd (writeTemplate env r out name cfg s))) = removals (trace s)"
proof (cases "templateFS env (''templates/'' @ name)")
  case None
  then show ?thesis by (simp add: writeTemplate_def)
next
  case (Some src)
  show ?thesis
  proof (cases "Parse env name src")
    case (Inl e)
    with Some show ?thesis by (simp add: writeTemplate_def)
  next
    case (Inr t)
    show ?thesis
      by (simp add: writeTemplate_parsed [OF Some Inr] split: option.splits)
  qed
qed

lemma removals_render_all [simp]:
  "removals (trace (snd (render_all env cfg r es s))) = removals (trace s)"
proof (induction es arbitrary: s)
  case Nil
  show ?case by simp
next
  case (Cons x es)
  obtain out name where x: "x = (out, name)" by (cases x)
  from Cons.IH [of "snd (writeTemplate env r out name cfg s)"]
  show ?case by (simp add: x case_prod_beta split: option.splits)
qed

lemma removals_write_files [simp]:
  "removals (trace (snd (write_files env cfg r s))) = removals (trace s)"
  by (simp add: write_files_render writeGoMod_def writeMakefile_def case_prod_beta
      split: option.splits)

lemma removals_make_dirs [simp]: "removals (trace (make_dirs cfg r s)) = removals (trace s)"
proof -
  have "removals (concat (map (\<lambda>dir. MkdirAllEv (Join r dir)
        # (if Gitkeep cfg then [WriteFileEv (Join (Join r dir) ''.gitkeep'') ''''] else [])) ds)) = []"
    for ds
    by (induction ds) simp_all
  then show ?thesis by (simp add: trace_make_dirs)
qed


text \<open>A successful render leaves every output as a regular file.\<close>

lemma writeTemplate_ok_file:
  assumes "fst (writeTemplate env r out name cfg s) = None"
  shows "is_file (lookup (snd (writeTemplate env r out name cfg s)) (Join r out))"
proof (cases "templateFS env (''templates/'' @ name)")
  case None
  with assms show ?thesis by (simp add: writeTemplate_def)
next
  case (Some src)
  show ?thesis
  proof (cases "Parse env name src")
    case (Inl e)
    with Some assms show ?thesis by (simp add: writeTemplate_def)
  next
    case (Inr t)
    note eq = writeTemplate_parsed [OF Some Inr, of r out cfg s]
    from assms have oe: "open_error (Join r out) (snd (MkdirAll (Dir_of (Join r out)) s)) = None"
      by (simp add: eq split: option.splits)
    then have "Join r out \<noteq> []" by (simp add: open_error_None)
    with oe show ?thesis by (simp add: eq lookup_Write is_file_def)
  qed
qed

lemma render_all_ok_files:
  assumes "fst (render_all env cfg r es s) = None" and "(out, name) \<in> set es"
  shows "is_file (lookup (snd (render_all env cfg r es s)) (Join r out))"
  using assms
proof (induction es arbitrary: s)
  case Nil
  then show ?case by simp
next
  case (Cons x es)
  obtain out' name' where x: "x = (out', name')" by (cases x)
  let ?s1 = "snd (writeTemplate env r out' name' cfg s)"
  from Cons.prems(1) have w: "fst (writeTemplate env r out' name' cfg s) = None"
    and rest: "fst (render_all env cfg r es ?s1) = None"
    and eq: "snd (render_all env cfg r (x # es) s) = snd (render_all env cfg r es ?s1)"
    by (auto simp: x case_prod_beta split: option.splits)
  show ?case
  proof (cases "(out, name) \<in> set es")
    case True
    with rest show ?thesis unfolding eq by (rule Cons.IH)
  next
    case False
    with Cons.prems(2) x have "out = out'" by simp
    with w have "is_file (lookup ?s1 (Join r out))" by (simp add: writeTemplate_ok_file)
    with chg_render_all show ?thesis unfolding eq by (rule chg_file)
  qed
qed

lemma generate_ok_outputs:
  assumes "fst (generate env cfg s) = None" and "p \<in> set out_paths"
  shows "is_file (lookup (snd (generate env cfg s)) (Abs (cwd env) (Root cfg) @ p))"
proof -
  let ?r = "Abs (cwd env) (Root cfg)"
  from assms(2) have "?r @ p \<in> set (map (\<lambda>(out, name). Join ?r out) template_manifest)"
    by (simp add: Join_manifest)
  then obtain out name where e: "(out, name) \<in> set template_manifest" and j: "Join ?r out = ?r @ p"
    by auto
  from generate_ok_prepare [OF assms(1)]
  have rest: "fst (render_all env cfg ?r template_manifest (snd (prepare env cfg s))) = None"
    and pre: "fst (prepare env cfg s) = None" by simp_all
  from pre have eq: "snd (generate env cfg s)
      = snd (render_all env cfg ?r template_manifest (snd (prepare env cfg s)))"
    by (cases "prepare env cfg s") (simp add: generate_prepare)
  from render_all_ok_files [OF rest e] show ?thesis by (simp add: j eq)
qed

lemma generate_ok_dir_free:
  assumes ok: "fst (generate env cfg s) = None" and p: "p \<in> set out_paths"
  shows "fst (MkdirAll_name (cwd env) (Root cfg) s) = None"
    and "fst (MkdirAll (Abs (cwd env) (Root cfg) @ butlast p) (before_dirs env cfg s)) = None"
proof -
  show root: "fst (MkdirAll_name (cwd env) (Root cfg) s) = None"
  proof (rule ccontr)
    assume "fst (MkdirAll_name (cwd env) (Root cfg) s) \<noteq> None"
    then obtain e where "MkdirAll_name (cwd env) (Root cfg) s
        = (Some e, snd (MkdirAll_name (cwd env) (Root cfg) s))"
      by (cases "MkdirAll_name (cwd env) (Root cfg) s") auto
    then have "generate env cfg s = (Some e, snd (MkdirAll_name (cwd env) (Root cfg) s))"
      by (rule generate_root_fails)
    with ok show False by simp
  qed
  show "fst (MkdirAll (Abs (cwd env) (Root cfg) @ butlast p) (before_dirs env cfg s)) = None"
  proof (rule ccontr)
    assume "fst (MkdirAll (Abs (cwd env) (Root cfg) @ butlast p) (before_dirs env cfg s)) \<noteq> None"
    with p have "fst (write_files env cfg (Abs (cwd env) (Root cfg))
        (make_dirs cfg (Abs (cwd env) (Root cfg)) (before_dirs env cfg s))) \<noteq> None"
      by (rule tail_fails)
    with ok show False by (simp add: generate_before_dirs [OF root])
  qed
qed

subsection \<open>Runs without the clean step\<close>

lemma generate_keeps_dir:
  assumes "\<not> Clean cfg" and "lookup s q = Some Dir"
  shows "lookup (snd (generate env cfg s)) q = Some Dir"
proof (cases "fst (MkdirAll_name (cwd env) (Root cfg) s) = None")
  case False
  then have "chg {} UNIV s (snd (generate env cfg s))" by (rule generate_root_fails_chg)
  then show ?thesis using assms(2) by (rule chg_dir)
next
  case True
  let ?r = "Abs (cwd env) (Root cfg)"
  let ?s1 = "snd (MkdirAll_name (cwd env) (Root cfg) s)"
  from chg_MkdirAll_name assms(2) have "lookup ?s1 q = Some Dir" by (rule chg_dir)
  with chg_tail have "lookup (snd (write_files env cfg ?r (make_dirs cfg ?r ?s1))) q = Some Dir"
    by (rule chg_dir)
  with assms(1) show ?thesis by (simp add: generate_root_ok [OF True])
qed


lemma generate_cleans_others:
  assumes root: "fst (MkdirAll_name (cwd env) (Root cfg) s) = None"
    and clean: "Clean cfg" and wf: "wf_state s"
    and q: "strict_prefix (Abs (cwd env) (Root cfg)) q"
      "q \<notin> set (map ((@) (Abs (cwd env) (Root cfg))) generated_paths)"
  shows "lookup (snd (generate env cfg s)) q = None"
proof -
  let ?r = "Abs (cwd env) (Root cfg)"
  have "lookup (before_dirs env cfg s) q = None"
    using q(1) by (simp add: before_dirs_clean(3) [OF root wf clean])
  moreover have "lookup (snd (write_files env cfg ?r (make_dirs cfg ?r (before_dirs env cfg s)))) q
      = lookup (before_dirs env cfg s) q"
    using chg_tail not_generated(1) [OF q(2)] not_generated(2) [OF q(2) q(1)]
    by (rule chg_unchanged)
  ultimately show ?thesis by (simp add: generate_before_dirs [OF root])
qed


lemma example_kept_root_ok:
  "fst (MkdirAll_name (cwd example_env) (Root example_cfg_kept) example_fs) = None"
  "fst (MkdirAll_name (cwd example_env) (Root example_cfg_kept) example_fs_marker) = None"
  by code_simp+


lemma example_kept_templates_ok:
  "(out, name) \<in> set template_manifest \<Longrightarrow> template_ok example_env example_cfg_kept name"
proof -
  have td: "template_data example_cfg_kept = template_data example_cfg"
    by (simp add: template_data_def example_cfg_kept_def)
  have "template_ok example_env example_cfg_kept name = template_ok example_env example_cfg name"
    unfolding template_ok_def td by (rule refl)
  then show "(out, name) \<in> set template_manifest \<Longrightarrow> template_ok example_env example_cfg_kept name"
    by (simp add: example_templates_ok)
qed

lemma example_marker_run_ok:
  "fst (generate example_env example_cfg_kept example_fs_marker) = None"
proof (rule generate_succeeds_kept [OF example_kept_root_ok(2) _ example_kept_templates_ok])
  show "\<not> Clean example_cfg_kept" by (simp add: example_cfg_kept_def)
  show "lookup (snd (MkdirAll_name (cwd example_env) (Root example_cfg_kept) example_fs_marker))
      (Abs (cwd example_env) (Root example_cfg_kept) @ [''go.mod'']) \<noteq> Some Dir"
    by code_simp
  show "lookup (snd (MkdirAll_name (cwd example_env) (Root example_cfg_kept) example_fs_marker))
      (Abs (cwd example_env) (Root example_cfg_kept) @ [''Makefile'']) \<noteq> Some Dir"
    by code_simp
  have "list_all (\<lambda>p. \<not> blocked example_fs_marker
          (Abs (cwd example_env) (Root example_cfg_kept) @ butlast p)
        \<and> lookup (snd (MkdirAll_name (cwd example_env) (Root example_cfg_kept) example_fs_marker))
            (Abs (cwd example_env) (Root example_cfg_kept) @ p) \<noteq> Some Dir) out_paths"
    by code_simp
  then show "\<not> blocked example_fs_marker (Abs (cwd example_env) (Root example_cfg_kept) @ butlast p)
        \<and> lookup (snd (MkdirAll_name (cwd example_env) (Root example_cfg_kept) example_fs_marker))
            (Abs (cwd example_env) (Root example_cfg_kept) @ p) \<noteq> Some Dir"
    if "p \<in> set out_paths" for p
    using that unfolding list_all_iff by blast
qed (assumption)

subsection \<open>References in a template\<close>

lemma exec_nodes_append:
  "exec_nodes name src (pre @ post) data out =
     (case exec_nodes name src pre data out of
        (o1, None) \<Rightarrow> exec_nodes name src post data o1
      | (o1, Some e) \<Rightarrow> (o1, Some e))"
proof (induction pre arbitrary: out)
  case Nil
  show ?case by simp
next
  case (Cons n pre)
  show ?case
  proof (cases n)
    case (TextNode t)
    with Cons.IH show ?thesis by simp
  next
    case (FieldNode pos ids)
    with Cons.IH show ?thesis by (simp split: sum.splits)
  qed
qed

lemma ident_char_no_space:
  "ident_char c \<Longrightarrow> c \<noteq> CHR 0x20 \<and> c \<noteq> CHR 0x09 \<and> c \<noteq> CHR 0x0D \<and> c \<noteq> CHR 0x0A \<and> c \<noteq> CHR ''.''"
  by (auto simp: ident_char_def)

lemma trim_left_none: "s \<noteq> [] \<Longrightarrow> [hd s] \<notin> set ws \<Longrightarrow> \<forall>w \<in> set ws. length w = 1
    \<Longrightarrow> trim_left ws s = s"
proof -
  assume s: "s \<noteq> []" and h: "[hd s] \<notin> set ws" and l: "\<forall>w \<in> set ws. length w = 1"
  have "find (\<lambda>w. w \<noteq> [] \<and> prefix w s) ws = None"
  proof (rule ccontr)
    assume "find (\<lambda>w. w \<noteq> [] \<and> prefix w s) ws \<noteq> None"
    then obtain w where w: "w \<in> set ws" "prefix w s"
      by (auto simp: find_None_iff)
    with l obtain c where "w = [c]" by (cases w) auto
    with w(2) s have "w = [hd s]" by (cases s) auto
    with w(1) h show False by simp
  qed
  then show ?thesis by (simp add: trim_left.simps [of ws s])
qed

lemma parse_action_field:
  assumes "ident_ok k"
  shows "parse_action pos (''.'' @ k) = Some (FieldNode pos [k])"
proof -
  from assms have k: "k \<noteq> []" "list_all ident_char k" by (simp_all add: ident_ok_def)
  have sp: "\<forall>w \<in> set action_spaces. length w = 1" by (simp add: action_spaces_def)
  have 1: "trim_left action_spaces (''.'' @ k) = ''.'' @ k"
    by (rule trim_left_none [OF _ _ sp]) (simp_all add: action_spaces_def)
  from k have "ident_char (last k)" by (simp add: list_all_iff)
  then have "[last k] \<notin> set action_spaces"
    using ident_char_no_space [of "last k"] by (auto simp: action_spaces_def)
  with k(1) have "[hd (rev (''.'' @ k))] \<notin> set action_spaces" by (simp add: hd_rev)
  then have 2: "trim_left action_spaces (rev (''.'' @ k)) = rev (''.'' @ k)"
    by (intro trim_left_none [OF _ _ sp]) simp_all
  from k(2) have "CHR ''.'' \<notin> set k"
    using ident_char_no_space by (auto simp: list_all_iff)
  then have 3: "split_on (CHR ''.'') k = [k]" by (rule split_on_no_delim)
  show ?thesis
    unfolding parse_action_def 1 Let_def 2 using assms by (simp add: 3)
qed

subsection \<open>Runs from states with the same tree\<close>

lemma open_error_cong: "lookup s = lookup t \<Longrightarrow> open_error p s = open_error p t"
  by (simp add: open_error_def)

lemma WriteFile_cong:
  assumes "lookup s = lookup t"
  shows "fst (WriteFile p c s) = fst (WriteFile p c t)"
    and "lookup (snd (WriteFile p c s)) = lookup (snd (WriteFile p c t))"
  using assms open_error_cong [OF assms, of p]
  by (auto simp: fun_eq_iff lookup_WriteFile)

lemma Create_cong:
  assumes "lookup s = lookup t"
  shows "fst (Create p s) = fst (Create p t)"
    and "lookup (snd (Create p s)) = lookup (snd (Create p t))"
  using assms open_error_cong [OF assms, of p]
  by (auto simp: fun_eq_iff lookup_Create)

lemma Write_cong:
  "lookup s = lookup t \<Longrightarrow> lookup (Write p b s) = lookup (Write p b t)"
  by (simp add: fun_eq_iff lookup_Write)

lemma make_path_cong:
  assumes "lookup s = lookup t"
  shows "lookup (make_path cfg s p) = lookup (make_path cfg t p)"
proof -
  note m = MkdirAll_cong(2) [OF assms, of p]
  from WriteFile_cong(2) [OF m] m show ?thesis by (simp add: make_path_def Let_def)
qed

lemma make_paths_cong:
  "lookup s = lookup t \<Longrightarrow> lookup (make_paths cfg s ps) = lookup (make_paths cfg t ps)"
proof (induction ps arbitrary: s t)
  case Nil
  then show ?case by simp
next
  case (Cons p ps)
  from Cons.prems have "lookup (make_path cfg s p) = lookup (make_path cfg t p)"
    by (rule make_path_cong)
  then show ?case unfolding make_paths_Cons by (rule Cons.IH)
qed

lemma make_dirs_cong:
  "lookup s = lookup t \<Longrightarrow> lookup (make_dirs cfg r s) = lookup (make_dirs cfg r t)"
  unfolding make_dirs_paths by (rule make_paths_cong)

lemma writeTemplate_cong:
  assumes "lookup s = lookup t"
  shows "fst (writeTemplate env r out name cfg s) = fst (writeTemplate env r out name cfg t)"
    and "lookup (snd (writeTemplate env r out name cfg s))
       = lookup (snd (writeTemplate env r out name cfg t))"
proof -
  have "fst (writeTemplate env r out name cfg s) = fst (writeTemplate env r out name cfg t)
      \<and> lookup (snd (writeTemplate env r out name cfg s))
       = lookup (snd (writeTemplate env r out name cfg t))"
  proof (cases "templateFS env (''templates/'' @ name)")
    case None
    with assms show ?thesis by (simp add: writeTemplate_def)
  next
    case (Some src)
    show ?thesis
    proof (cases "Parse env name src")
      case (Inl e)
      with Some assms show ?thesis by (simp add: writeTemplate_def)
    next
      case (Inr tm)
      let ?p = "Join r out"
      let ?s1 = "snd (MkdirAll (Dir_of ?p) s)" and ?t1 = "snd (MkdirAll (Dir_of ?p) t)"
      from assms have 1: "lookup ?s1 = lookup ?t1" by (rule MkdirAll_cong(2))
      then have oe: "open_error ?p ?s1 = open_error ?p ?t1" by (rule open_error_cong)
      from 1 have 2: "lookup (snd (Create ?p ?s1)) = lookup (snd (Create ?p ?t1))"
        by (rule Create_cong(2))
      then have 3: "lookup (Write ?p b (snd (Create ?p ?s1)))
          = lookup (Write ?p b (snd (Create ?p ?t1)))" for b
        by (rule Write_cong)
      show ?thesis
        unfolding writeTemplate_parsed [OF Some Inr] oe
        using 2 3 by (simp split: option.splits)
    qed
  qed
  then show "fst (writeTemplate env r out name cfg s) = fst (writeTemplate env r out name cfg t)"
    and "lookup (snd (writeTemplate env r out name cfg s))
       = lookup (snd (writeTemplate env r out name cfg t))"
    by simp_all
qed

lemma render_all_cong:
  "lookup s = lookup t \<Longrightarrow>
     fst (render_all env cfg r es s) = fst (render_all env cfg r es t)
     \<and> lookup (snd (render_all env cfg r es s)) = lookup (snd (render_all env cfg r es t))"
proof (induction es arbitrary: s t)
  case Nil
  then show ?case by simp
next
  case (Cons x es)
  obtain out name where x: "x = (out, name)" by (cases x)
  note w = writeTemplate_cong [OF Cons.prems, of env r out name cfg]
  show ?case
  proof (cases "fst (writeTemplate env r out name cfg t)")
    case (Some e)
    with w show ?thesis by (simp add: x case_prod_beta)
  next
    case None
    with w Cons.IH [OF w(2)] show ?thesis by (simp add: x case_prod_beta)
  qed
qed

lemma write_files_cong:
  assumes "lookup s = lookup t"
  shows "fst (write_files env cfg r s) = fst (write_files env cfg r t)"
    and "lookup (snd (write_files env cfg r s)) = lookup (snd (write_files env cfg r t))"
proof -
  let ?s1 = "snd (writeGoMod r (ModuleName cfg) s)" and ?t1 = "snd (writeGoMod r (ModuleName cfg) t)"
  let ?s2 = "snd (writeMakefile r (Port cfg) ?s1)" and ?t2 = "snd (writeMakefile r (Port cfg) ?t1)"
  have g: "fst (writeGoMod r (ModuleName cfg) s) = fst (writeGoMod r (ModuleName cfg) t)"
    and 1: "lookup ?s1 = lookup ?t1"
    unfolding writeGoMod_def by (rule WriteFile_cong [OF assms])+
  have m: "fst (writeMakefile r (Port cfg) ?s1) = fst (writeMakefile r (Port cfg) ?t1)"
    and 2: "lookup ?s2 = lookup ?t2"
    unfolding writeMakefile_def by (rule WriteFile_cong [OF 1])+
  note 3 = render_all_cong [OF 2, of env cfg r template_manifest]
  have "fst (write_files env cfg r s) = fst (write_files env cfg r t)
      \<and> lookup (snd (write_files env cfg r s)) = lookup (snd (write_files env cfg r t))"
    unfolding write_files_render using g 1 m 2 3
    by (simp add: case_prod_beta split: option.splits)
  then show "fst (write_files env cfg r s) = fst (write_files env cfg r t)"
    and "lookup (snd (write_files env cfg r s)) = lookup (snd (write_files env cfg r t))"
    by simp_all
qed

subsection \<open>Well-formed trees stay well-formed\<close>

lemma wf_make_path:
  assumes "wf_state s" and "list_all valid_name p"
  shows "wf_state (make_path cfg s p)"
proof -
  from assms have 1: "wf_state (snd (MkdirAll p s))" by (rule wf_MkdirAll)
  from assms(2) have "list_all valid_name (p @ [''.gitkeep''])" by (simp add: valid_name_def)
  with 1 have "wf_state (snd (WriteFile (p @ [''.gitkeep'']) '''' (snd (MkdirAll p s))))"
    by (rule wf_WriteFile)
  with 1 show ?thesis by (simp add: make_path_def Let_def)
qed

lemma wf_make_paths:
  "wf_state s \<Longrightarrow> \<forall>p \<in> set ps. list_all valid_name p \<Longrightarrow> wf_state (make_paths cfg s ps)"
  by (induction ps arbitrary: s) (simp_all add: wf_make_path)

lemma dir_paths_valid: "d \<in> set dir_paths \<Longrightarrow> list_all valid_name d"
proof -
  have "list_all (list_all valid_name) dir_paths"
    by (simp add: dir_paths_def valid_name_def)
  then show "d \<in> set dir_paths \<Longrightarrow> list_all valid_name d" by (simp add: list_all_iff)
qed

lemma out_paths_valid: "p \<in> set out_paths \<Longrightarrow> list_all valid_name p"
proof -
  have "list_all (list_all valid_name) out_paths"
    by (simp add: out_paths_def valid_name_def)
  then show "p \<in> set out_paths \<Longrightarrow> list_all valid_name p" by (simp add: list_all_iff)
qed

lemma wf_make_dirs:
  assumes "wf_state s" and "list_all valid_name r"
  shows "wf_state (make_dirs cfg r s)"
  unfolding make_dirs_paths
  by (rule wf_make_paths [OF assms(1)]) (use assms(2) dir_paths_valid in auto)

lemma wf_writeTemplate:
  assumes wf: "wf_state s" and v: "list_all valid_name (Join r out)"
  shows "wf_state (snd (writeTemplate env r out name cfg s))"
proof (cases "templateFS env (''templates/'' @ name)")
  case None
  with wf show ?thesis by (simp add: writeTemplate_def)
next
  case (Some src)
  show ?thesis
  proof (cases "Parse env name src")
    case (Inl e)
    with Some wf show ?thesis by (simp add: writeTemplate_def)
  next
    case (Inr tm)
    let ?p = "Join r out"
    let ?s1 = "snd (MkdirAll (Dir_of ?p) s)"
    from v have "list_all valid_name (Dir_of ?p)"
      by (auto simp: Dir_of_def list_all_iff dest: in_set_butlastD)
    with wf have 1: "wf_state ?s1" by (rule wf_MkdirAll)
    from 1 v have 2: "wf_state (snd (Create ?p ?s1))" by (rule wf_Create)
    show ?thesis
    proof (cases "open_error ?p ?s1")
      case (Some e)
      with 2 show ?thesis by (simp add: writeTemplate_parsed [OF \<open>templateFS env _ = Some src\<close> Inr])
    next
      case None
      then have "lookup (snd (Create ?p ?s1)) ?p = Some (File '''')"
        by (simp add: lookup_Create)
      with 2 have "wf_state (Write ?p b (snd (Create ?p ?s1)))" for b by (rule wf_Write)
      with None show ?thesis
        by (simp add: writeTemplate_parsed [OF \<open>templateFS env _ = Some src\<close> Inr])
    qed
  qed
qed

lemma wf_render_all:
  "wf_state s \<Longrightarrow> \<forall>(out, name) \<in> set es. list_all valid_name (Join r out)
     \<Longrightarrow> wf_state (snd (render_all env cfg r es s))"
proof (induction es arbitrary: s)
  case Nil
  then show ?case by simp
next
  case (Cons x es)
  obtain out name where x: "x = (out, name)" by (cases x)
  from Cons.prems have 1: "wf_state (snd (writeTemplate env r out name cfg s))"
    by (intro wf_writeTemplate) (simp_all add: x)
  from Cons.prems(2) have "\<forall>(out, name) \<in> set es. list_all valid_name (Join r out)" by simp
  with 1 have "wf_state (snd (render_all env cfg r es (snd (writeTemplate env r out name cfg s))))"
    by (rule Cons.IH)
  with 1 show ?case by (simp add: x case_prod_beta split: option.splits)
qed

lemma wf_write_files:
  assumes wf: "wf_state s" and v: "list_all valid_name r"
  shows "wf_state (snd (write_files env cfg r s))"
proof -
  let ?s1 = "snd (writeGoMod r (ModuleName cfg) s)"
  let ?s2 = "snd (writeMakefile r (Port cfg) ?s1)"
  from v have vg: "list_all valid_name (r @ [''go.mod''])" "list_all valid_name (r @ [''Makefile''])"
    by (simp_all add: valid_name_def)
  from wf vg(1) have 1: "wf_state ?s1" by (simp add: writeGoMod_def Join_statics wf_WriteFile)
  from 1 vg(2) have 2: "wf_state ?s2" by (simp add: writeMakefile_def Join_statics wf_WriteFile)
  have "\<forall>(out, name) \<in> set template_manifest. list_all valid_name (Join r out)"
  proof (clarify)
    fix out name assume "(out, name) \<in> set template_manifest"
    then obtain p where "p \<in> set out_paths" "Join r out = r @ p"
      using Join_manifest_entry by blast
    with v out_paths_valid show "list_all valid_name (Join r out)" by simp
  qed
  with 2 have 3: "wf_state (snd (render_all env cfg r template_manifest ?s2))"
    by (rule wf_render_all)
  from 1 2 3 show ?thesis
    by (simp add: write_files_render case_prod_beta split: option.splits)
qed

lemma wf_generate: "wf_state s \<Longrightarrow> wf_state (snd (generate env cfg s))"
proof (cases "fst (MkdirAll_name (cwd env) (Root cfg) s) = None")
  case False
  assume wf: "wf_state s"
  from False obtain e where "MkdirAll_name (cwd env) (Root cfg) s
      = (Some e, snd (MkdirAll_name (cwd env) (Root cfg) s))"
    by (cases "MkdirAll_name (cwd env) (Root cfg) s") auto
  then have "generate env cfg s = (Some e, snd (MkdirAll_name (cwd env) (Root cfg) s))"
    by (rule generate_root_fails)
  with wf show ?thesis by (simp add: wf_MkdirAll_name)
next
  case True
  assume wf: "wf_state s"
  let ?r = "Abs (cwd env) (Root cfg)"
  let ?s1 = "snd (MkdirAll_name (cwd env) (Root cfg) s)"
  from wf have wf1: "wf_state ?s1" by (rule wf_MkdirAll_name)
  from True have "lookup ?s1 ?r = Some Dir" by (rule MkdirAll_name_ok)
  with wf1 have v: "list_all valid_name ?r" by (rule wf_lookup(1))
  from wf1 have "wf_state (before_dirs env cfg s)" by (simp add: before_dirs_def wf_clean_root)
  then have "wf_state (make_dirs cfg ?r (before_dirs env cfg s))" using v by (rule wf_make_dirs)
  then have "wf_state (snd (write_files env cfg ?r (make_dirs cfg ?r (before_dirs env cfg s))))"
    using v by (rule wf_write_files)
  then show ?thesis by (simp add: generate_before_dirs [OF True])
qed

subsection \<open>Running again\<close>

lemma clean_step_plain: "c \<noteq> ''..'' \<Longrightarrow> prefix cur (clean_step cur c)"
  by (simp add: clean_step_def)

lemma clean_onto_plain: "''..'' \<notin> set cs \<Longrightarrow> prefix cur (clean_onto cur cs)"
proof (induction cs arbitrary: cur)
  case Nil
  show ?case by (simp add: clean_onto_def)
next
  case (Cons c cs)
  from Cons.prems have "prefix cur (clean_step cur c)" by (intro clean_step_plain) auto
  also from Cons.prems have "prefix (clean_step cur c) (clean_onto (clean_step cur c) cs)"
    by (intro Cons.IH) simp
  finally show ?case by (simp add: clean_onto_def)
qed

lemma walk_plain:
  assumes "''..'' \<notin> set cs"
    and "\<And>p. prefix cur p \<Longrightarrow> prefix p (clean_onto cur cs) \<Longrightarrow> lookup t p = Some Dir"
  shows "walk t cur cs = Inr (clean_onto cur cs)"
  using assms
proof (induction cs arbitrary: cur)
  case Nil
  show ?case by (simp add: clean_onto_def)
next
  case (Cons c cs)
  from Cons.prems(1) have n: "''..'' \<notin> set cs" "c \<noteq> ''..''" by auto
  have e: "clean_onto cur (c # cs) = clean_onto (clean_step cur c) cs"
    by (simp add: clean_onto_def)
  from Cons.prems(1) have "prefix cur (clean_onto cur (c # cs))" by (rule clean_onto_plain)
  then have d: "lookup t cur = Some Dir" by (intro Cons.prems(2)) simp_all
  have "walk t (clean_step cur c) cs = Inr (clean_onto (clean_step cur c) cs)"
  proof (rule Cons.IH [OF n(1)])
    fix p assume p: "prefix (clean_step cur c) p" "prefix p (clean_onto (clean_step cur c) cs)"
    from n(2) have "prefix cur (clean_step cur c)" by (rule clean_step_plain)
    from this p(1) have "prefix cur p" by (rule prefix_order.trans)
    then show "lookup t p = Some Dir" using p(2) unfolding e [symmetric] by (rule Cons.prems(2))
  qed
  with d show ?case by (simp add: e)
qed

lemma Stat_plain:
  assumes wf: "wf_state t" and r: "lookup t (Abs wd name) = Some Dir"
    and plain: "''..'' \<notin> set (split_on (CHR ''/'') name)" and ne: "name \<noteq> ''''"
  shows "Stat wd name t = Inr Dir"
proof -
  have "walk t (start_dir wd name) (split_on (CHR ''/'') name) = Inr (Abs wd name)"
    unfolding Abs_start
  proof (rule walk_plain [OF plain])
    fix p assume "prefix p (clean_onto (start_dir wd name) (split_on (CHR ''/'') name))"
    then have "p = Abs wd name \<or> strict_prefix p (Abs wd name)"
      by (auto simp: Abs_start strict_prefix_def)
    with r wf_lookup(2) [OF wf r] show "lookup t p = Some Dir" by auto
  qed
  with r ne show ?thesis by (simp add: Stat_def)
qed

lemma root_exists_again:
  assumes wf: "wf_state t" and r: "lookup t (Abs wd name) = Some Dir"
    and plain: "''..'' \<notin> set (split_on (CHR ''/'') name)" and ne: "name \<noteq> ''''"
  shows "MkdirAll_name wd name t = (None, log (MkdirAllNameEv name) t)"
  by (rule MkdirAll_name_exists [OF Stat_plain [OF assms]])

lemma root_ok_name: "fst (MkdirAll_name wd name s) = None \<Longrightarrow> name \<noteq> ''''"
proof
  assume ok: "fst (MkdirAll_name wd name s) = None" and "name = ''''"
  then have "MkdirAll_rec wd name s = (Some (PathError ''mkdir'' '''' ENOENT), s)"
    by (simp add: MkdirAll_rec.simps [of wd "''''" s] Stat_def parent_end_def Mkdir_def)
  with ok show False by (simp add: MkdirAll_name_def)
qed

text \<open>
  After the root is created (and cleaned, in a well-formed tree), the rest of the run
  changes nothing at or above the root, and nothing beside it.
\<close>

lemma tail_outside:
  assumes wf: "wf_state t" and r: "lookup t r = Some Dir" and q: "\<not> strict_prefix r q"
  shows "lookup (snd (write_files env cfg r (make_dirs cfg r t))) q = lookup t q"
proof -
  let ?F = "{r @ d @ [''.gitkeep''] |d. Gitkeep cfg \<and> d \<in> set dir_paths}
      \<union> {r @ [''go.mod''], r @ [''Makefile'']} \<union> {r @ p |p. p \<in> set out_paths}"
  let ?D = "{q. \<exists>d \<in> set dir_paths. prefix q (r @ d)}"
  let ?t' = "snd (write_files env cfg r (make_dirs cfg r t))"
  have c: "chg ?F ?D t ?t'" by (rule chg_tail)
  have nf: "q \<notin> ?F"
  proof
    assume "q \<in> ?F"
    then obtain x where "q = r @ x" "x \<noteq> []" using out_paths_last by auto
    with q show False by simp
  qed
  have nn: "lookup t q \<noteq> None" if "q \<in> ?D"
  proof -
    from that obtain d where "prefix q (r @ d)" by auto
    then have "prefix q r \<or> strict_prefix r q"
      by (metis prefix_append prefix_order.dual_order.order_iff_strict prefix_same_cases
          prefixI)
    with q have "prefix q r" by simp
    then have "q = r \<or> strict_prefix q r" by (auto simp: strict_prefix_def)
    with r wf_lookup(2) [OF wf r] show ?thesis by auto
  qed
  from c have "lookup ?t' q = lookup t q
      \<or> (q \<in> ?F \<and> is_file (lookup ?t' q) \<and> lookup t q \<noteq> Some Dir)
      \<or> (q \<in> ?D \<and> lookup t q = None \<and> lookup ?t' q = Some Dir)"
    unfolding chg_def by blast
  then show ?thesis
  proof (elim disjE conjE)
    assume "lookup ?t' q = lookup t q"
    then show ?thesis .
  next
    assume "q \<in> ?F"
    with nf show ?thesis by contradiction
  next
    assume "q \<in> ?D" and "lookup t q = None"
    with nn show ?thesis by simp
  qed
qed

lemma generate_again:
  assumes root: "fst (MkdirAll_name (cwd env) (Root cfg) s) = None"
    and clean: "Clean cfg" and wf: "wf_state s"
    and plain: "''..'' \<notin> set (split_on (CHR ''/'') (Root cfg))"
  shows "fst (generate env cfg (snd (generate env cfg s))) = fst (generate env cfg s)"
    and "lookup (snd (generate env cfg (snd (generate env cfg s)))) = lookup (snd (generate env cfg s))"
proof -
  let ?r = "Abs (cwd env) (Root cfg)"
  let ?a1 = "snd (MkdirAll_name (cwd env) (Root cfg) s)"
  let ?b1 = "before_dirs env cfg s"
  let ?s1 = "snd (generate env cfg s)"
  let ?b2 = "before_dirs env cfg ?s1"
  from wf have wfa: "wf_state ?a1" by (rule wf_MkdirAll_name)
  from root have ra: "lookup ?a1 ?r = Some Dir" by (rule MkdirAll_name_ok)
  note lb = before_dirs_clean(3) [OF root wf clean]
  from wfa have wfb: "wf_state ?b1" using clean by (simp add: before_dirs_def wf_clean_root)
  from ra have rb: "lookup ?b1 ?r = Some Dir" by (simp add: lb)
  note g1 = generate_before_dirs [OF root]
  from wf have wf1: "wf_state ?s1" by (rule wf_generate)
  have out1: "lookup ?s1 q = lookup ?b1 q" if "\<not> strict_prefix ?r q" for q
    unfolding g1 using wfb rb that by (rule tail_outside)
  from rb have r1: "lookup ?s1 ?r = Some Dir" by (simp add: out1)
  have again: "MkdirAll_name (cwd env) (Root cfg) ?s1 = (None, log (MkdirAllNameEv (Root cfg)) ?s1)"
    using wf1 r1 plain root_ok_name [OF root] by (rule root_exists_again)
  then have root2: "fst (MkdirAll_name (cwd env) (Root cfg) ?s1) = None" by simp
  have a2: "lookup (snd (MkdirAll_name (cwd env) (Root cfg) ?s1)) = lookup ?s1"
    by (simp add: again)
  have "lookup ?b2 q = lookup ?b1 q" for q
  proof (cases "strict_prefix ?r q")
    case True
    then show ?thesis by (simp add: lb before_dirs_clean(3) [OF root2 wf1 clean])
  next
    case False
    then show ?thesis by (simp add: lb before_dirs_clean(3) [OF root2 wf1 clean] a2 out1)
  qed
  then have b: "lookup ?b2 = lookup ?b1" by (rule ext)
  then have m: "lookup (make_dirs cfg ?r ?b2) = lookup (make_dirs cfg ?r ?b1)"
    by (rule make_dirs_cong)
  note w = write_files_cong [OF m, of env cfg ?r]
  note g2 = generate_before_dirs [OF root2]
  from w(1) have "fst (generate env cfg ?s1) = fst (write_files env cfg ?r (make_dirs cfg ?r ?b1))"
    by (simp only: g2)
  then show "fst (generate env cfg ?s1) = fst (generate env cfg s)"
    by (simp only: g1)
  from w(2) have "lookup (snd (generate env cfg ?s1))
      = lookup (snd (write_files env cfg ?r (make_dirs cfg ?r ?b1)))"
    by (simp only: g2)
  then show "lookup (snd (generate env cfg ?s1)) = lookup ?s1"
    by (simp only: g1)
qed

subsection \<open>A root name that goes through the generated tree\<close>

lemma lookup_add: "p \<noteq> [] \<Longrightarrow> lookup (t\<lparr>files := (p, n) # files t\<rparr>) q = (if q = p then Some n else lookup t q)"
  by (simp add: lookup_def)

lemma dots_root_again:
  assumes l1: "lookup t [''w''] = Some Dir" and l2: "lookup t [''w'', ''out''] = Some Dir"
    and l3: "lookup t [''w'', ''out'', ''new''] = None"
    and l4: "lookup t [''w'', ''out'', ''go.mod''] = Some (File c)"
  shows "MkdirAll_rec [''w''] ''out/new/../go.mod/..'' t =
     (Some (PathError ''mkdir'' ''out/new/../go.mod'' EEXIST),
      t\<lparr>files := ([''w'', ''out'', ''new''], Dir) # files t\<rparr>)"
proof -
  let ?t1 = "t\<lparr>files := ([''w'', ''out'', ''new''], Dir) # files t\<rparr>"
  note l = l1 l2 l3 l4
  have k: "lookup ?t1 [''w''] = Some Dir" "lookup ?t1 [''w'', ''out''] = Some Dir"
    "lookup ?t1 [''w'', ''out'', ''new''] = Some Dir"
    "lookup ?t1 [''w'', ''out'', ''go.mod''] = Some (File c)"
    by (simp_all add: lookup_add l)
  have r0: "MkdirAll_rec [''w''] ''out'' t = (None, t)"
    by (rule MkdirAll_rec_exists) (simp add: Stat_def start_dir_def clean_step_def l)
  have s1: "Stat [''w''] ''out/new'' t = Inl ENOENT"
    by (simp add: Stat_def start_dir_def clean_step_def l)
  have m1: "Mkdir [''w''] ''out/new'' t = (None, ?t1)"
    by (simp add: Mkdir_def start_dir_def clean_step_def l)
  have r1: "MkdirAll_rec [''w''] ''out/new'' t = (None, ?t1)"
    by (subst MkdirAll_rec_slow [OF s1 refl]) (simp add: parent_end_def r0 m1)
  have s2: "Stat [''w''] ''out/new/..'' t = Inl ENOENT"
    by (simp add: Stat_def start_dir_def clean_step_def l)
  have m2: "Mkdir [''w''] ''out/new/..'' ?t1 = (Some EEXIST, ?t1)"
    by (simp add: Mkdir_def start_dir_def clean_step_def k)
  have s2': "Stat [''w''] ''out/new/..'' ?t1 = Inr Dir"
    by (simp add: Stat_def start_dir_def clean_step_def k)
  have r2: "MkdirAll_rec [''w''] ''out/new/..'' t = (None, ?t1)"
    by (subst MkdirAll_rec_slow [OF s2 refl]) (simp add: parent_end_def r1 m2 s2')
  have s3: "Stat [''w''] ''out/new/../go.mod'' t = Inl ENOENT"
    by (simp add: Stat_def start_dir_def clean_step_def l)
  have m3: "Mkdir [''w''] ''out/new/../go.mod'' ?t1 = (Some EEXIST, ?t1)"
    by (simp add: Mkdir_def start_dir_def clean_step_def k)
  have s3': "Stat [''w''] ''out/new/../go.mod'' ?t1 = Inr (File c)"
    by (simp add: Stat_def start_dir_def clean_step_def k)
  have r3: "MkdirAll_rec [''w''] ''out/new/../go.mod'' t =
      (Some (PathError ''mkdir'' ''out/new/../go.mod'' EEXIST), ?t1)"
    by (subst MkdirAll_rec_slow [OF s3 refl]) (simp add: parent_end_def r2 m3 s3')
  have s4: "Stat [''w''] ''out/new/../go.mod/..'' t = Inl ENOENT"
    by (simp add: Stat_def start_dir_def clean_step_def l)
  show ?thesis
    by (subst MkdirAll_rec_slow [OF s4 refl]) (simp add: parent_end_def r3)
qed

lemma generate_clean_outside:
  assumes root: "fst (MkdirAll_name (cwd env) (Root cfg) s) = None"
    and clean: "Clean cfg" and wf: "wf_state s"
    and q: "\<not> strict_prefix (Abs (cwd env) (Root cfg)) q"
  shows "lookup (snd (generate env cfg s)) q = lookup (snd (MkdirAll_name (cwd env) (Root cfg) s)) q"
proof -
  let ?r = "Abs (cwd env) (Root cfg)"
  let ?a1 = "snd (MkdirAll_name (cwd env) (Root cfg) s)"
  let ?b1 = "before_dirs env cfg s"
  from wf have wfa: "wf_state ?a1" by (rule wf_MkdirAll_name)
  from root have ra: "lookup ?a1 ?r = Some Dir" by (rule MkdirAll_name_ok)
  note lb = before_dirs_clean(3) [OF root wf clean]
  from wfa have wfb: "wf_state ?b1" using clean by (simp add: before_dirs_def wf_clean_root)
  from ra have rb: "lookup ?b1 ?r = Some Dir" by (simp add: lb)
  have "lookup (snd (generate env cfg s)) q = lookup ?b1 q"
    unfolding generate_before_dirs [OF root] using wfb rb q by (rule tail_outside)
  with q show ?thesis by (simp add: lb)
qed

lemma generate_ok_gomod:
  assumes "fst (generate env cfg s) = None"
  shows "lookup (snd (generate env cfg s)) (Abs (cwd env) (Root cfg) @ [''go.mod''])
      = Some (File (gomod_content (ModuleName cfg)))"
proof -
  let ?r = "Abs (cwd env) (Root cfg)"
  from assms have "generate env cfg s = (None, snd (generate env cfg s))"
    by (simp add: prod_eq_iff)
  then obtain s3 s4 s5 where
    g: "writeGoMod ?r (ModuleName cfg) s3 = (None, s4)"
    and m: "writeMakefile ?r (Port cfg) s4 = (None, s5)"
    and t: "render_all env cfg ?r template_manifest s5 = (None, snd (generate env cfg s))"
    by (rule generate_ok_parts)
  from g have g1: "open_error (?r @ [''go.mod'']) s3 = None"
    and s4: "s4 = snd (WriteFile (?r @ [''go.mod'']) (gomod_content (ModuleName cfg)) s3)"
    by (simp_all add: writeGoMod_def Join_statics prod_eq_iff)
  from m have s5: "s5 = snd (WriteFile (?r @ [''Makefile'']) (makefile_content (Port cfg)) s4)"
    by (simp_all add: writeMakefile_def Join_statics prod_eq_iff)
  from g1 have "lookup s4 (?r @ [''go.mod'']) = Some (File (gomod_content (ModuleName cfg)))"
    by (simp add: s4 lookup_WriteFile)
  then have a5: "lookup s5 (?r @ [''go.mod'']) = Some (File (gomod_content (ModuleName cfg)))"
    by (simp add: s5 lookup_WriteFile)
  from t have s': "snd (generate env cfg s) = snd (render_all env cfg ?r template_manifest s5)"
    by simp
  have c: "chg {Join ?r out |out name. (out, name) \<in> set template_manifest}
     {q. \<exists>(out, name) \<in> set template_manifest. prefix q (Dir_of (Join ?r out))} s5
     (snd (generate env cfg s))"
    unfolding s' by (rule chg_render_all)
  show ?thesis
    by (rule chg_keeps [OF c _ a5]) (auto simp: template_manifest_def Join_outputs)
qed

lemma example_dots_root_ok:
  "fst (MkdirAll_name (cwd example_env) (Root example_cfg_dots) example_fs) = None"
  by code_simp

lemma example_dots_root: "Abs (cwd example_env) (Root example_cfg_dots) = [''w'', ''out'']"
  by code_simp

lemma example_dots_run_ok: "fst (generate example_env example_cfg_dots example_fs) = None"
proof (rule generate_succeeds_clean [OF example_dots_root_ok _ example_wf])
  show "Clean example_cfg_dots" by (simp add: example_cfg_dots_def example_cfg_def)
  fix out name assume m: "(out, name) \<in> set template_manifest"
  have td: "template_data example_cfg_dots = template_data example_cfg"
    by (simp add: template_data_def example_cfg_dots_def)
  have "template_ok example_env example_cfg_dots name = template_ok example_env example_cfg name"
    unfolding template_ok_def td by (rule refl)
  with example_templates_ok [OF m] show "template_ok example_env example_cfg_dots name" by simp
qed

lemma example_dots_first:
  "lookup (snd (generate example_env example_cfg_dots example_fs)) [''w''] = Some Dir"
  "lookup (snd (generate example_env example_cfg_dots example_fs)) [''w'', ''out''] = Some Dir"
  "lookup (snd (generate example_env example_cfg_dots example_fs)) [''w'', ''out'', ''new''] = None"
  "lookup (snd (generate example_env example_cfg_dots example_fs)) [''w'', ''out'', ''go.mod'']
     = Some (File (gomod_content (ModuleName example_cfg_dots)))"
proof -
  let ?s1 = "snd (generate example_env example_cfg_dots example_fs)"
  let ?a1 = "snd (MkdirAll_name (cwd example_env) (Root example_cfg_dots) example_fs)"
  have c: "Clean example_cfg_dots" by (simp add: example_cfg_dots_def example_cfg_def)
  note out = generate_clean_outside [OF example_dots_root_ok c example_wf,
      unfolded example_dots_root]
  have w: "lookup example_fs [''w''] = Some Dir" by code_simp
  from chg_MkdirAll_name w have "lookup ?a1 [''w''] = Some Dir" by (rule chg_dir)
  moreover have "\<not> strict_prefix [''w'', ''out''] [''w'']" by (simp add: strict_prefix_def)
  ultimately show "lookup ?s1 [''w''] = Some Dir" by (simp add: out)
  from MkdirAll_name_ok [OF example_dots_root_ok]
  have "lookup ?a1 [''w'', ''out''] = Some Dir" by (simp add: example_dots_root)
  then show "lookup ?s1 [''w'', ''out''] = Some Dir" by (simp add: out)
  have n: "[''w'', ''out'', ''new''] \<notin> set (map ((@) [''w'', ''out'']) generated_paths)"
  proof -
    have "[''new''] \<notin> set generated_paths"
      by (simp add: generated_paths_def dir_paths_def out_paths_def)
    then show ?thesis by auto
  qed
  have "strict_prefix [''w'', ''out''] [''w'', ''out'', ''new'']" by (simp add: strict_prefix_def)
  with n show "lookup ?s1 [''w'', ''out'', ''new''] = None"
    using generate_cleans_others [OF example_dots_root_ok c example_wf,
        unfolded example_dots_root, of "[''w'', ''out'', ''new'']"] by simp
  from generate_ok_gomod [OF example_dots_run_ok]
  show "lookup ?s1 [''w'', ''out'', ''go.mod'']
     = Some (File (gomod_content (ModuleName example_cfg_dots)))"
    by (simp add: example_dots_root)
qed

lemma example_dots_second:
  "generate example_env example_cfg_dots (snd (generate example_env example_cfg_dots example_fs)) =
     (Some (PathError ''mkdir'' ''out/new/../go.mod'' EEXIST),
      log (MkdirAllNameEv ''out/new/../go.mod/..'')
        ((snd (generate example_env example_cfg_dots example_fs))
           \<lparr>files := ([''w'', ''out'', ''new''], Dir)
              # files (snd (generate example_env example_cfg_dots example_fs))\<rparr>))"
proof -
  have r: "Root example_cfg_dots = ''out/new/../go.mod/..''" "cwd example_env = [''w'']"
    by (simp_all add: example_cfg_dots_def example_cwd)
  show ?thesis
    by (rule generate_root_fails)
      (simp add: MkdirAll_name_def r dots_root_again [OF example_dots_first])
qed

subsection \<open>Root names without \<^verbatim>\<open>..\<close>\<close>

lemma split_on_append_delim: "split_on d (xs @ d # ys) = split_on d xs @ split_on d ys"
proof (induction xs)
  case Nil
  show ?case by simp
next
  case (Cons c xs)
  have "split_on d xs \<noteq> []" by (cases xs) (auto split: list.splits)
  then obtain w ws where "split_on d xs = w # ws" by (cases "split_on d xs") auto
  with Cons.IH show ?case by simp
qed

lemma split_on_slashes:
  "d \<notin> set e \<Longrightarrow> split_on d (e @ replicate k d) = e # replicate k []"
proof (induction k arbitrary: e)
  case 0
  then show ?case by (simp add: split_on_no_delim)
next
  case (Suc k)
  have "e @ replicate (Suc k) d = e @ d # replicate k d" by simp
  also have "split_on d \<dots> = split_on d e @ split_on d ([] @ replicate k d)"
    by (simp add: split_on_append_delim)
  also have "\<dots> = [e] @ [] # replicate k []"
    using Suc.prems Suc.IH [of "[]"] by (simp add: split_on_no_delim)
  finally show ?case by (simp add: replicate_append_same)
qed

lemma rev_snoc_hd: "xs \<noteq> [] \<Longrightarrow> rev xs = butlast (rev xs) @ [hd xs]"
  by (cases xs) simp_all

lemma takeWhile_hd: "xs \<noteq> [] \<Longrightarrow> P (hd xs) \<Longrightarrow> takeWhile P xs \<noteq> []"
  by (cases xs) simp_all

text \<open>
  A name whose parent \<^verbatim>\<open>os.MkdirAll\<close> creates first: the parent, a slash, the last
  element, and slashes.
\<close>

lemma name_parts:
  assumes "1 < length (parent_end name)"
  obtains elem k where "name = butlast (parent_end name) @ CHR ''/'' # elem @ replicate k (CHR ''/'')"
    and "elem \<noteq> []" and "CHR ''/'' \<notin> set elem" and "butlast (parent_end name) \<noteq> []"
proof -
  let ?sl = "takeWhile (\<lambda>c. c = CHR ''/'') (rev name)"
  let ?r1 = "dropWhile (\<lambda>c. c = CHR ''/'') (rev name)"
  let ?el = "takeWhile (\<lambda>c. c \<noteq> CHR ''/'') ?r1"
  let ?r2 = "dropWhile (\<lambda>c. c \<noteq> CHR ''/'') ?r1"
  have pe: "parent_end name = rev ?r2" by (simp add: parent_end_def)
  from assms have "1 < length ?r2" by (simp add: pe)
  then have r2: "?r2 \<noteq> []" by (metis list.size(3) not_less_zero)
  then have "hd ?r2 = CHR ''/''" using hd_dropWhile [of "\<lambda>c. c \<noteq> CHR ''/''" ?r1] by simp
  with rev_snoc_hd [OF r2] have l: "parent_end name = butlast (parent_end name) @ [CHR ''/'']"
    unfolding pe by (simp only:)
  have "?el @ ?r2 = ?r1" by (rule takeWhile_dropWhile_id)
  moreover have "?sl @ ?r1 = rev name" by (rule takeWhile_dropWhile_id)
  ultimately have "rev name = ?sl @ ?el @ ?r2" by (rule_tac sym) (simp only:)
  then have "rev (rev name) = rev (?sl @ ?el @ ?r2)" by (rule arg_cong)
  then have "name = rev ?r2 @ rev ?el @ rev ?sl"
    by (simp only: rev_rev_ident rev_append append.assoc)
  then have "name = parent_end name @ rev ?el @ rev ?sl" by (simp only: pe)
  then have "name = (butlast (parent_end name) @ [CHR ''/'']) @ rev ?el @ rev ?sl"
    using l by (rule_tac trans) (assumption, rule_tac arg_cong [where f = "\<lambda>x. x @ rev ?el @ rev ?sl"], assumption)
  then have n: "name = butlast (parent_end name) @ CHR ''/'' # rev ?el @ rev ?sl"
    by (simp only: append.assoc append_Cons append_Nil)
  have sl: "rev ?sl = replicate (length ?sl) (CHR ''/'')"
  proof -
    have "\<forall>c \<in> set ?sl. c = CHR ''/''" by (auto dest: set_takeWhileD)
    then have "replicate (length ?sl) (CHR ''/'') = ?sl"
      by (rule replicate_length_same)
    then have "rev ?sl = rev (replicate (length ?sl) (CHR ''/''))" by (rule_tac sym) (rule arg_cong)
    then show ?thesis by (simp only: rev_replicate)
  qed
  from r2 have "?r1 \<noteq> []" by (metis dropWhile.simps(1))
  then have "hd ?r1 \<noteq> CHR ''/''" using hd_dropWhile [of "\<lambda>c. c = CHR ''/''" "rev name"] by simp
  with \<open>?r1 \<noteq> []\<close> have el: "?el \<noteq> []" by (rule takeWhile_hd)
  have ns: "CHR ''/'' \<notin> set (rev ?el)" by (auto dest: set_takeWhileD)
  from assms have "butlast (parent_end name) \<noteq> []"
    by (cases "parent_end name" rule: rev_cases) auto
  with n sl el ns show ?thesis by (intro that [of "rev ?el" "length ?sl"]) simp_all
qed

lemma strip_blanks:
  assumes "e \<noteq> []"
  shows "rev (dropWhile (\<lambda>c. c = []) (rev (xs @ e # replicate k []))) = xs @ [e]"
proof -
  have "dropWhile (\<lambda>c. c = []) (replicate k [] @ e # rev xs) = e # rev xs"
    using assms by (induction k) simp_all
  then show ?thesis by (simp add: rev_replicate)
qed

lemma name_comps:
  assumes "1 < length (parent_end name)"
  obtains elem where "elem \<noteq> []" and "CHR ''/'' \<notin> set elem"
    and "rev (dropWhile (\<lambda>c. c = '''') (rev (split_on (CHR ''/'') name)))
         = split_on (CHR ''/'') (butlast (parent_end name)) @ [elem]"
    and "set (split_on (CHR ''/'') name)
         \<subseteq> set (split_on (CHR ''/'') (butlast (parent_end name))) \<union> {elem, ''''}"
    and "set (split_on (CHR ''/'') (butlast (parent_end name))) \<subseteq> set (split_on (CHR ''/'') name)"
    and "elem \<in> set (split_on (CHR ''/'') name)"
    and "start_dir wd (butlast (parent_end name)) = start_dir wd name"
    and "Abs wd name = clean_step (Abs wd (butlast (parent_end name))) elem"
proof -
  from assms obtain elem k where n: "name = butlast (parent_end name) @ CHR ''/'' # elem @ replicate k (CHR ''/'')"
    and e: "elem \<noteq> []" "CHR ''/'' \<notin> set elem" and p: "butlast (parent_end name) \<noteq> []"
    by (rule name_parts)
  let ?P = "butlast (parent_end name)"
  have c: "split_on (CHR ''/'') name = split_on (CHR ''/'') ?P @ elem # replicate k []"
    by (subst n) (simp add: split_on_append_delim split_on_slashes e(2))
  have st: "start_dir wd ?P = start_dir wd name"
  proof -
    from p obtain a as where "?P = a # as" by (cases ?P) auto
    with n have "name = a # as @ CHR ''/'' # elem @ replicate k (CHR ''/'')"
      by (metis append_Cons)
    then have "hd name = a" "name \<noteq> []" by (metis list.sel(1), metis list.discI)
    with \<open>?P = a # as\<close> show ?thesis by (simp add: start_dir_def)
  qed
  have a: "Abs wd name = clean_step (Abs wd ?P) elem"
  proof -
    have "Abs wd name = clean_onto (start_dir wd name) ((split_on (CHR ''/'') ?P @ [elem]) @ replicate k [])"
      by (simp add: Abs_start c)
    also have "\<dots> = clean_onto (start_dir wd name) (split_on (CHR ''/'') ?P @ [elem])"
      by (rule clean_onto_blanks) simp
    also have "\<dots> = clean_step (clean_onto (start_dir wd name) (split_on (CHR ''/'') ?P)) elem"
      by (rule clean_onto_snoc)
    finally show ?thesis by (simp add: Abs_start st)
  qed
  show ?thesis
  proof (rule that [of elem])
    show "elem \<noteq> []" "CHR ''/'' \<notin> set elem" by (rule e)+
    show "rev (dropWhile (\<lambda>c. c = '''') (rev (split_on (CHR ''/'') name)))
         = split_on (CHR ''/'') ?P @ [elem]"
      unfolding c using e(1) by (rule strip_blanks)
    show "set (split_on (CHR ''/'') name) \<subseteq> set (split_on (CHR ''/'') ?P) \<union> {elem, ''''}"
      by (auto simp: c)
    show "set (split_on (CHR ''/'') ?P) \<subseteq> set (split_on (CHR ''/'') name)" by (auto simp: c)
    show "elem \<in> set (split_on (CHR ''/'') name)" by (simp add: c)
    show "start_dir wd ?P = start_dir wd name" by (rule st)
    show "Abs wd name = clean_step (Abs wd ?P) elem" by (rule a)
  qed
qed

text \<open>
  In a well-formed tree \<^verbatim>\<open>os.Mkdir\<close> of a name without \<^verbatim>\<open>..\<close> succeeds when the
  parent is a directory and the name is free.
\<close>

lemma Mkdir_plain_ok:
  assumes wf: "wf_state t" and rec: "1 < length (parent_end name)"
    and plain: "''..'' \<notin> set (split_on (CHR ''/'') name)"
    and par: "lookup t (Abs wd (butlast (parent_end name))) = Some Dir"
    and free: "lookup t (Abs wd name) = None"
  shows "fst (Mkdir wd name t) = None"
proof -
  let ?P = "butlast (parent_end name)"
  let ?Tp = "Abs wd ?P"
  from rec obtain elem where e: "elem \<noteq> []"
    and cs: "rev (dropWhile (\<lambda>c. c = '''') (rev (split_on (CHR ''/'') name)))
         = split_on (CHR ''/'') ?P @ [elem]"
    and sub: "set (split_on (CHR ''/'') ?P) \<subseteq> set (split_on (CHR ''/'') name)"
    and el: "elem \<in> set (split_on (CHR ''/'') name)"
    and st: "start_dir wd ?P = start_dir wd name"
    and a: "Abs wd name = clean_step ?Tp elem"
    by (rule name_comps [where wd = wd])
  from rec have ne: "name \<noteq> ''''" by (auto simp: parent_end_def)
  from plain sub have pp: "''..'' \<notin> set (split_on (CHR ''/'') ?P)" by auto
  have w: "walk t (start_dir wd name) (split_on (CHR ''/'') ?P) = Inr ?Tp"
    unfolding Abs_start st
  proof (rule walk_plain [OF pp])
    fix p assume "prefix p (clean_onto (start_dir wd name) (split_on (CHR ''/'') ?P))"
    then have "p = ?Tp \<or> strict_prefix p ?Tp"
      by (auto simp: Abs_start st strict_prefix_def)
    with par wf_lookup(2) [OF wf par] show "lookup t p = Some Dir" by auto
  qed
  from plain el have n2: "elem \<noteq> ''..''" by auto
  have n1: "elem \<noteq> ''.''"
  proof
    assume "elem = ''.''"
    then have "Abs wd name = ?Tp" by (simp add: a clean_step_def)
    with par free show False by simp
  qed
  from e n1 n2 have t: "Abs wd name = ?Tp @ [elem]" by (simp add: a clean_step_def)
  from free have f: "lookup t (?Tp @ [elem]) = None" by (simp add: t)
  show ?thesis
    unfolding Mkdir_def Let_def cs
    using ne w par n1 n2 f by simp
qed

lemma walk_cong: "lookup s = lookup t \<Longrightarrow> walk s cur cs = walk t cur cs"
  by (induction cs arbitrary: cur) (simp_all split: option.splits node.splits)

lemma Stat_cong: "lookup s = lookup t \<Longrightarrow> Stat wd name s = Stat wd name t"
  by (simp add: Stat_def walk_cong [of s t] split: sum.splits)

lemma Mkdir_cong:
  assumes "lookup s = lookup t"
  shows "fst (Mkdir wd name s) = fst (Mkdir wd name t)"
    and "lookup (snd (Mkdir wd name s)) = lookup (snd (Mkdir wd name t))"
proof -
  define cs where "cs = rev (dropWhile (\<lambda>c. c = '''') (rev (split_on (CHR ''/'') name)))"
  have m: "Mkdir wd name u =
     (if name = '''' then (Some ENOENT, u)
      else if cs = [] then (Some EEXIST, u)
      else (case walk u (start_dir wd name) (butlast cs) of
              Inl e \<Rightarrow> (Some e, u)
            | Inr parent \<Rightarrow>
                (case lookup u parent of
                   None \<Rightarrow> (Some ENOENT, u)
                 | Some (File x) \<Rightarrow> (Some ENOTDIR, u)
                 | Some Dir \<Rightarrow>
                     if last cs = ''.'' \<or> last cs = ''..'' \<or> lookup u (parent @ [last cs]) \<noteq> None
                     then (Some EEXIST, u)
                     else (None, u\<lparr>files := (parent @ [last cs], Dir) # files u\<rparr>))))" for u
    unfolding Mkdir_def Let_def cs_def by (rule refl)
  show 1: "fst (Mkdir wd name s) = fst (Mkdir wd name t)"
    unfolding m [of s] m [of t] walk_cong [OF assms]
    by (auto simp: assms split: sum.splits option.splits node.splits)
  show "lookup (snd (Mkdir wd name s)) = lookup (snd (Mkdir wd name t))"
    by (rule ext) (simp add: lookup_Mkdir 1 assms)
qed

lemma MkdirAll_rec_cong:
  assumes "lookup s = lookup t"
  shows "fst (MkdirAll_rec wd name s) = fst (MkdirAll_rec wd name t)
       \<and> lookup (snd (MkdirAll_rec wd name s)) = lookup (snd (MkdirAll_rec wd name t))"
  using assms
proof (induction wd name s arbitrary: t rule: MkdirAll_rec.induct)
  case (1 wd name s)
  note st = Stat_cong [OF "1.prems", of wd name]
  show ?case
  proof (cases "Stat wd name s")
    case (Inr n)
    with st have Inr': "Stat wd name t = Inr n" by simp
    from "1.prems" show ?thesis
      by (cases n)
        (simp_all add: MkdirAll_rec.simps [of wd name s] MkdirAll_rec.simps [of wd name t] Inr Inr')
  next
    case (Inl e0)
    with st have Inl': "Stat wd name t = Inl e0" by simp
    define par where "par = (if 1 < length (parent_end name)
                then MkdirAll_rec wd (butlast (parent_end name)) s else (None, s))"
    define par' where "par' = (if 1 < length (parent_end name)
                then MkdirAll_rec wd (butlast (parent_end name)) t else (None, t))"
    have p: "fst par = fst par' \<and> lookup (snd par) = lookup (snd par')"
      using "1.IH" [OF Inl _ "1.prems"] "1.prems" by (simp add: par_def par'_def)
    then have l: "lookup (snd par) = lookup (snd par')" by simp
    note m = Mkdir_cong [OF l, of wd name]
    note s2 = Stat_cong [OF l, of wd name]
    from p m s2 show ?thesis
      unfolding MkdirAll_rec_slow [OF Inl par_def] MkdirAll_rec_slow [OF Inl' par'_def]
      by (simp split: option.splits)
  qed
qed

text \<open>
  \<^verbatim>\<open>os.MkdirAll\<close> of a name without \<^verbatim>\<open>..\<close> in a well-formed tree: when it fails it
  has created nothing.
\<close>

lemma MkdirAll_rec_plain:
  assumes "wf_state s" and "''..'' \<notin> set (split_on (CHR ''/'') name)"
  shows "lookup (snd (MkdirAll_rec wd name s)) = lookup s
       \<or> (fst (MkdirAll_rec wd name s) = None \<and> lookup s (Abs wd name) = None
          \<and> (\<forall>q. lookup (snd (MkdirAll_rec wd name s)) q \<noteq> lookup s q \<longrightarrow> prefix q (Abs wd name)))"
  using assms
proof (induction wd name s rule: MkdirAll_rec.induct)
  case (1 wd name s)
  note wf = "1.prems"(1) and plain = "1.prems"(2)
  let ?T = "Abs wd name"
  let ?P = "butlast (parent_end name)"
  let ?Tp = "Abs wd ?P"
  show ?case
  proof (cases "Stat wd name s")
    case (Inr n)
    then show ?thesis by (cases n) (simp_all add: MkdirAll_rec.simps [of wd name s])
  next
    case (Inl e0)
    define par where "par = (if 1 < length (parent_end name)
                then MkdirAll_rec wd ?P s else (None, s))"
    note eq = MkdirAll_rec_slow [OF Inl par_def]
    let ?sp = "snd par"
    let ?mk = "Mkdir wd name ?sp"
    have wfp: "wf_state ?sp" using wf by (simp add: par_def wf_MkdirAll_rec)
    have grow: "lookup ?sp q = lookup s q \<or> lookup s q = None" for q
      using chg_MkdirAll_rec [of s wd ?P] by (auto simp: par_def chg_def)
    have i: "lookup ?sp = lookup s
       \<or> (fst par = None \<and> 1 < length (parent_end name) \<and> lookup ?sp ?Tp = Some Dir
          \<and> lookup s ?Tp = None
          \<and> prefix ?Tp ?T \<and> (\<forall>q. lookup ?sp q \<noteq> lookup s q \<longrightarrow> prefix q ?Tp))"
    proof (cases "1 < length (parent_end name)")
      case False
      then show ?thesis by (simp add: par_def)
    next
      case True
      then obtain elem where sub: "set (split_on (CHR ''/'') ?P) \<subseteq> set (split_on (CHR ''/'') name)"
        and el: "elem \<in> set (split_on (CHR ''/'') name)"
        and a: "Abs wd name = clean_step ?Tp elem"
        by (rule name_comps [where wd = wd])
      from plain sub have pp: "''..'' \<notin> set (split_on (CHR ''/'') ?P)" by auto
      from plain el have "elem \<noteq> ''..''" by auto
      then have pre: "prefix ?Tp ?T" unfolding a by (rule clean_step_plain)
      from "1.IH" [OF Inl True wf pp] MkdirAll_rec_dir [of wd ?P s] True pre
      show ?thesis by (auto simp: par_def)
    qed
    have up: "lookup s ?T = None" if "lookup s ?Tp = None" "prefix ?Tp ?T"
    proof (rule ccontr)
      assume "lookup s ?T \<noteq> None"
      then obtain n where n: "lookup s ?T = Some n" by auto
      from that(2) have "?Tp = ?T \<or> strict_prefix ?Tp ?T" by (auto simp: strict_prefix_def)
      with that(1) n wf_lookup(2) [OF wf n, of ?Tp] show False by auto
    qed
    show ?thesis
    proof (cases "fst par")
      case (Some err)
      with i have "lookup ?sp = lookup s" by auto
      with Some show ?thesis by (simp add: eq)
    next
      case None
      show ?thesis
      proof (cases "fst ?mk")
        case mk: None
        have r: "MkdirAll_rec wd name s = (None, snd ?mk)" using None mk by (simp add: eq)
        from Mkdir_ok(2) [OF mk] grow [of ?T] have f: "lookup s ?T = None" by auto
        have "prefix q ?T" if "lookup (snd ?mk) q \<noteq> lookup s q" for q
        proof (cases "q = ?T")
          case True
          then show ?thesis by simp
        next
          case False
          with that mk have "lookup ?sp q \<noteq> lookup s q" by (simp add: lookup_Mkdir)
          with i have "prefix q ?Tp" "prefix ?Tp ?T" by auto
          then show ?thesis by (rule prefix_order.trans)
        qed
        with f show ?thesis by (simp add: r)
      next
        case mk: (Some e)
        show ?thesis
        proof (cases "Stat wd name ?sp = Inr Dir")
          case True
          have r: "MkdirAll_rec wd name s = (None, ?sp)" using None mk True by (simp add: eq)
          from i show ?thesis
          proof
            assume "lookup ?sp = lookup s"
            then show ?thesis by (simp add: r)
          next
            assume j: "fst par = None \<and> 1 < length (parent_end name) \<and> lookup ?sp ?Tp = Some Dir
              \<and> lookup s ?Tp = None
              \<and> prefix ?Tp ?T \<and> (\<forall>q. lookup ?sp q \<noteq> lookup s q \<longrightarrow> prefix q ?Tp)"
            then have f: "lookup s ?T = None" by (intro up) simp_all
            have "prefix q ?T" if "lookup ?sp q \<noteq> lookup s q" for q
            proof -
              from j that have "prefix q ?Tp" "prefix ?Tp ?T" by auto
              then show ?thesis by (rule prefix_order.trans)
            qed
            with f show ?thesis by (simp add: r)
          qed
        next
          case False
          have r: "MkdirAll_rec wd name s = (Some (PathError ''mkdir'' name e), ?sp)"
            using None mk False by (simp add: eq)
          have "lookup ?sp = lookup s"
          proof (rule ccontr)
            assume "lookup ?sp \<noteq> lookup s"
            with i have j: "1 < length (parent_end name)" "lookup ?sp ?Tp = Some Dir"
              "lookup s ?Tp = None" "prefix ?Tp ?T" "\<And>q. lookup ?sp q \<noteq> lookup s q \<Longrightarrow> prefix q ?Tp"
              by auto
            from j(1) have ne: "name \<noteq> ''''" by (auto simp: parent_end_def)
            show False
            proof (cases "?T = ?Tp")
              case True
              with j(2) have "lookup ?sp ?T = Some Dir" by simp
              with wfp have "Stat wd name ?sp = Inr Dir" using plain ne by (rule Stat_plain)
              with False show False by simp
            next
              case ne_t: False
              from j(3,4) have f: "lookup s ?T = None" by (rule up)
              have "lookup ?sp ?T = lookup s ?T"
              proof (rule ccontr)
                assume "lookup ?sp ?T \<noteq> lookup s ?T"
                then have "prefix ?T ?Tp" by (rule j(5))
                with j(4) ne_t show False by (simp add: prefix_order.eq_iff)
              qed
              with f have "lookup ?sp ?T = None" by simp
              with wfp j(1) plain j(2) have "fst ?mk = None" by (rule Mkdir_plain_ok)
              with mk show False by simp
            qed
          qed
          then show ?thesis by (simp add: r)
        qed
      qed
    qed
  qed
qed

lemma MkdirAll_name_plain_fails:
  assumes "wf_state s" and "''..'' \<notin> set (split_on (CHR ''/'') name)"
    and "fst (MkdirAll_name wd name s) \<noteq> None"
  shows "lookup (snd (MkdirAll_name wd name s)) = lookup s"
  using MkdirAll_rec_plain [OF assms(1,2), of wd] assms(3)
  by (auto simp: MkdirAll_name_def case_prod_beta)

lemma MkdirAll_name_cong:
  assumes "lookup s = lookup t"
  shows "fst (MkdirAll_name wd name s) = fst (MkdirAll_name wd name t)"
    and "lookup (snd (MkdirAll_name wd name s)) = lookup (snd (MkdirAll_name wd name t))"
  using MkdirAll_rec_cong [OF assms, of wd name]
  by (simp_all add: MkdirAll_name_def case_prod_beta)

text \<open>A run that fails at the root fails in the same way when it is run again.\<close>

lemma generate_again_fails:
  assumes wf: "wf_state s"
    and plain: "''..'' \<notin> set (split_on (CHR ''/'') (Root cfg))"
    and root: "fst (MkdirAll_name (cwd env) (Root cfg) s) \<noteq> None"
  shows "fst (generate env cfg (snd (generate env cfg s))) = fst (generate env cfg s)"
    and "lookup (snd (generate env cfg (snd (generate env cfg s)))) = lookup (snd (generate env cfg s))"
proof -
  let ?m1 = "MkdirAll_name (cwd env) (Root cfg) s"
  let ?m2 = "MkdirAll_name (cwd env) (Root cfg) (snd ?m1)"
  from root obtain e where e: "fst ?m1 = Some e" by auto
  then have "?m1 = (Some e, snd ?m1)" by (metis prod.collapse)
  then have g1: "generate env cfg s = (Some e, snd ?m1)" by (rule generate_root_fails)
  from wf plain root have l: "lookup (snd ?m1) = lookup s" by (rule MkdirAll_name_plain_fails)
  note c = MkdirAll_name_cong [OF l, of "cwd env" "Root cfg"]
  from c(1) e have "?m2 = (Some e, snd ?m2)" by (metis prod.collapse)
  then have g2: "generate env cfg (snd ?m1) = (Some e, snd ?m2)" by (rule generate_root_fails)
  show "fst (generate env cfg (snd (generate env cfg s))) = fst (generate env cfg s)"
    by (simp add: g1 g2)
  from c(2) l show "lookup (snd (generate env cfg (snd (generate env cfg s)))) = lookup (snd (generate env cfg s))"
    by (simp add: g1 g2)
qed

section \<open>Claims\<close>

text \<open>
  C8 (as amended). In interactive mode, when the five answers are typed as lines, the
  root, module name and port are the answer with its surrounding white space cut when
  the answer is not blank, and the flag value otherwise (an empty module name then
  becomes \<^verbatim>\<open>service.com/service\<close>); gitkeep and clean are true when the flag was
  set or the answer is \<^verbatim>\<open>y\<close> or \<^verbatim>\<open>Y\<close>: an answer can switch them on and
  never off.
\<close>

theorem interactive_answers:
  assumes "flag_i fl"
    and "CHR 0x0A \<notin> set l1" "CHR 0x0A \<notin> set l2" "CHR 0x0A \<notin> set l3"
    and "CHR 0x0A \<notin> set l4" "CHR 0x0A \<notin> set l5"
  shows "fst (main_config fl (l1 @ CHR 0x0A # l2 @ CHR 0x0A # l3 @ CHR 0x0A # l4 @ CHR 0x0A # l5 @ CHR 0x0A # rest)) =
    \<lparr>Root = answer_text (flag_r fl) (l1 @ NL),
     ModuleName = (if answer_text (flag_m fl) (l2 @ NL) = '''' then ''service.com/service''
                   else answer_text (flag_m fl) (l2 @ NL)),
     Port = answer_text (flag_p fl) (l3 @ NL),
     Gitkeep = answer_bool (flag_g fl) (l4 @ NL),
     Clean = answer_bool (flag_c fl) (l5 @ NL)\<rparr>"
proof -
  let ?inp = "l1 @ CHR 0x0A # l2 @ CHR 0x0A # l3 @ CHR 0x0A # l4 @ CHR 0x0A # l5 @ CHR 0x0A # rest"
  let ?cfg = "\<lparr>Root = flag_r fl, ModuleName = flag_m fl, Port = flag_p fl,
                Gitkeep = flag_g fl, Clean = flag_c fl\<rparr>"
  have p: "fst (prompts ?cfg ?inp) =
    \<lparr>Root = answer_text (flag_r fl) (l1 @ NL),
     ModuleName = answer_text (flag_m fl) (l2 @ NL),
     Port = answer_text (flag_p fl) (l3 @ NL),
     Gitkeep = answer_bool (flag_g fl) (l4 @ NL),
     Clean = answer_bool (flag_c fl) (l5 @ NL)\<rparr>"
    using prompts_lines [OF assms(2-6), of ?cfg rest] by simp
  obtain c out r where pr: "prompts ?cfg ?inp = (c, out, r)"
    by (cases "prompts ?cfg ?inp") auto
  with p have c: "c = \<lparr>Root = answer_text (flag_r fl) (l1 @ NL),
     ModuleName = answer_text (flag_m fl) (l2 @ NL),
     Port = answer_text (flag_p fl) (l3 @ NL),
     Gitkeep = answer_bool (flag_g fl) (l4 @ NL),
     Clean = answer_bool (flag_c fl) (l5 @ NL)\<rparr>" by simp
  show ?thesis
    using assms(1) pr c by (simp add: main_config_def Let_def)
qed

theorem interactive_answers_witness:
  "fst (main_config (default_flags\<lparr>flag_i := True, flag_g := True\<rparr>)
         (''out'' @ CHR 0x0A # '' github.com/acme/widget '' @ CHR 0x0A # '''' @ CHR 0x0A
            # ''n'' @ CHR 0x0A # ''Y'' @ CHR 0x0A # '''')) =
     \<lparr>Root = ''out'', ModuleName = ''github.com/acme/widget'', Port = ''8080'',
      Gitkeep = True, Clean = True\<rparr>"
proof -
  have fl: "flag_i (default_flags\<lparr>flag_i := True, flag_g := True\<rparr>)" by simp
  have l: "CHR 0x0A \<notin> set ''out''" "CHR 0x0A \<notin> set '' github.com/acme/widget ''"
    "CHR 0x0A \<notin> set ''''" "CHR 0x0A \<notin> set ''n''" "CHR 0x0A \<notin> set ''Y''"
    by simp_all
  have t: "answer_text ''.'' (''out'' @ NL) = ''out''"
    "answer_text '''' ('' github.com/acme/widget '' @ NL) = ''github.com/acme/widget''"
    "answer_text ''8080'' ('''' @ NL) = ''8080''"
    "answer_bool True (''n'' @ NL) = True"
    "answer_bool False (''Y'' @ NL) = True"
    by code_simp+
  show ?thesis
    using interactive_answers [OF fl l, of "''''"] t
    by (simp add: default_flags_def)
qed

text \<open>
  C8 as stated fails: with \<^verbatim>\<open>-g\<close> given and the answer \<^verbatim>\<open>n\<close> to the gitkeep
  prompt, the field stays true, where the typed answer says no.
\<close>

theorem interactive_answers_counterexample:
  "Gitkeep (fst (main_config (default_flags\<lparr>flag_i := True, flag_g := True\<rparr>)
      (''out'' @ CHR 0x0A # ''m'' @ CHR 0x0A # ''80'' @ CHR 0x0A # ''n'' @ CHR 0x0A # ''n'' @ CHR 0x0A # '''')))
   \<noteq> spec_answer_bool True (''n'' @ NL)"
  by code_simp

text \<open>
  C1. A successful generation leaves a \<^verbatim>\<open>go.mod\<close> under the root whose text is
  \<^verbatim>\<open>module\<close>, a space, the module identifier, and the fixed rest; and a
  \<^verbatim>\<open>Makefile\<close> whose first line is \<^verbatim>\<open>PORT ?=\<close>, a space and the port, followed by
  the fixed rest. Nothing else of either text depends on the configuration.
\<close>

theorem static_files_content:
  assumes "generate env cfg s = (None, s')"
  shows "lookup s' (Join (Abs (cwd env) (Root cfg)) ''go.mod'') =
      Some (File (''module '' @ ModuleName cfg @ NL @ NL @ ''go 1.22.0'' @ NL))
    \<and> lookup s' (Join (Abs (cwd env) (Root cfg)) ''Makefile'') =
      Some (File (''PORT ?= '' @ Port cfg @ NL @ NL
        @ ''run:'' @ NL @ TAB @ ''go run ./cmd/main.go'' @ NL @ NL
        @ ''build:'' @ NL @ TAB @ ''go build -o bin/app ./cmd/main.go'' @ NL @ NL
        @ ''test:'' @ NL @ TAB @ ''go test ./...'' @ NL @ NL
        @ ''setup:'' @ NL @ TAB @ ''go mod tidy'' @ NL))"
proof -
  let ?r = "Abs (cwd env) (Root cfg)"
  from assms obtain s3 s4 s5 where
    g: "writeGoMod ?r (ModuleName cfg) s3 = (None, s4)"
    and m: "writeMakefile ?r (Port cfg) s4 = (None, s5)"
    and t: "render_all env cfg ?r template_manifest s5 = (None, s')"
    by (rule generate_ok_parts)
  from g have g1: "open_error (?r @ [''go.mod'']) s3 = None"
    and s4: "s4 = snd (WriteFile (?r @ [''go.mod'']) (gomod_content (ModuleName cfg)) s3)"
    by (simp_all add: writeGoMod_def Join_statics prod_eq_iff)
  from m have m1: "open_error (?r @ [''Makefile'']) s4 = None"
    and s5: "s5 = snd (WriteFile (?r @ [''Makefile'']) (makefile_content (Port cfg)) s4)"
    by (simp_all add: writeMakefile_def Join_statics prod_eq_iff)
  from g1 have a: "lookup s4 (?r @ [''go.mod'']) = Some (File (gomod_content (ModuleName cfg)))"
    by (simp add: s4 lookup_WriteFile)
  then have a5: "lookup s5 (?r @ [''go.mod'']) = Some (File (gomod_content (ModuleName cfg)))"
    by (simp add: s5 lookup_WriteFile)
  from m1 have b5: "lookup s5 (?r @ [''Makefile'']) = Some (File (makefile_content (Port cfg)))"
    by (simp add: s5 lookup_WriteFile)
  from t have s': "s' = snd (render_all env cfg ?r template_manifest s5)" by simp
  have c: "chg {Join ?r out |out name. (out, name) \<in> set template_manifest}
     {q. \<exists>(out, name) \<in> set template_manifest. prefix q (Dir_of (Join ?r out))} s5 s'"
    unfolding s' by (rule chg_render_all)
  have "lookup s' (?r @ [''go.mod'']) = Some (File (gomod_content (ModuleName cfg)))"
    by (rule chg_keeps [OF c _ a5]) (auto simp: template_manifest_def Join_outputs)
  moreover have "lookup s' (?r @ [''Makefile'']) = Some (File (makefile_content (Port cfg)))"
    by (rule chg_keeps [OF c _ b5]) (auto simp: template_manifest_def Join_outputs)
  ultimately show ?thesis
    by (simp add: Join_statics gomod_content_def makefile_content_def)
qed

theorem static_files_content_witness:
  "lookup (snd (generate example_env example_cfg example_fs)) [''w'', ''out'', ''go.mod''] =
     Some (File (''module github.com/acme/widget'' @ NL @ NL @ ''go 1.22.0'' @ NL))
   \<and> lookup (snd (generate example_env example_cfg example_fs)) [''w'', ''out'', ''Makefile''] =
     Some (File (''PORT ?= 9090'' @ NL @ NL
        @ ''run:'' @ NL @ TAB @ ''go run ./cmd/main.go'' @ NL @ NL
        @ ''build:'' @ NL @ TAB @ ''go build -o bin/app ./cmd/main.go'' @ NL @ NL
        @ ''test:'' @ NL @ TAB @ ''go test ./...'' @ NL @ NL
        @ ''setup:'' @ NL @ TAB @ ''go mod tidy'' @ NL))"
proof -
  have "generate example_env example_cfg example_fs =
      (None, snd (generate example_env example_cfg example_fs))"
    using example_run_ok by (simp add: prod_eq_iff)
  from static_files_content [OF this] show ?thesis
    by (simp add: example_root Join_statics) (simp add: example_cfg_def)
qed

text \<open>
  C3. When creating the root directory fails, \<^verbatim>\<open>generate\<close> returns that error at
  once: the state it returns is the one in which the failing \<^verbatim>\<open>os.MkdirAll\<close> of
  the root ended, and that call is the only one made (no clean step, no directory of
  the manifest, no file). Compared with the state before, nothing is removed and
  nothing is written: all that can differ are directories that the failing call
  itself made on its way. \<^verbatim>\<open>main\<close> then exits with code 1 and writes
  \<^verbatim>\<open>Error:\<close> and the message of the error to the error stream, as it does whenever
  \<^verbatim>\<open>generate\<close> returns an error; when \<^verbatim>\<open>generate\<close> succeeds, \<^verbatim>\<open>main\<close> exits
  with code 0 and writes nothing to the error stream.
\<close>

theorem root_failure_aborts:
  assumes "\<not> flag_version fl" and "main_config fl inp = (cfg, out)"
  shows "(\<forall>e s1. MkdirAll_name (cwd env) (Root cfg) s = (Some e, s1) \<longrightarrow>
            generate env cfg s = (Some e, s1)
            \<and> trace s1 = trace s @ [MkdirAllNameEv (Root cfg)]
            \<and> (\<forall>q. lookup s1 q = lookup s q \<or> lookup s q = None \<and> lookup s1 q = Some Dir)
            \<and> main env fl inp s =
                \<lparr>exit_code = 1, stdout = out, stderr = ''Error: '' @ Error e @ NL, final = s1\<rparr>)
       \<and> (\<forall>e s'. generate env cfg s = (Some e, s') \<longrightarrow>
            main env fl inp s =
              \<lparr>exit_code = 1, stdout = out, stderr = ''Error: '' @ Error e @ NL, final = s'\<rparr>)
       \<and> (\<forall>s'. generate env cfg s = (None, s') \<longrightarrow>
            exit_code (main env fl inp s) = 0 \<and> stderr (main env fl inp s) = ''''
            \<and> final (main env fl inp s) = s')"
proof (intro conjI allI impI)
  fix e s1
  assume f: "MkdirAll_name (cwd env) (Root cfg) s = (Some e, s1)"
  then show g: "generate env cfg s = (Some e, s1)" by (rule generate_root_fails)
  from f have s1: "s1 = snd (MkdirAll_name (cwd env) (Root cfg) s)" by simp
  show "trace s1 = trace s @ [MkdirAllNameEv (Root cfg)]"
    by (simp add: s1)
  fix q
  from chg_MkdirAll_name [of s "cwd env" "Root cfg"]
  show "lookup s1 q = lookup s q \<or> lookup s q = None \<and> lookup s1 q = Some Dir"
    by (auto simp: chg_def s1)
  from g assms show "main env fl inp s =
      \<lparr>exit_code = 1, stdout = out, stderr = ''Error: '' @ Error e @ NL, final = s1\<rparr>"
    by (simp add: main_def)
next
  fix e s'
  assume "generate env cfg s = (Some e, s')"
  with assms show "main env fl inp s =
      \<lparr>exit_code = 1, stdout = out, stderr = ''Error: '' @ Error e @ NL, final = s'\<rparr>"
    by (simp add: main_def)
next
  fix s'
  assume g: "generate env cfg s = (None, s')"
  with assms show "exit_code (main env fl inp s) = 0" by (simp add: main_def)
  from g assms show "stderr (main env fl inp s) = ''''" by (simp add: main_def)
  from g assms show "final (main env fl inp s) = s'" by (simp add: main_def)
qed

theorem root_failure_aborts_witness:
  "main example_env (example_flags\<lparr>flag_r := ''out/foo.txt''\<rparr>) '''' example_fs =
     \<lparr>exit_code = 1, stdout = '''',
      stderr = ''Error: mkdir out/foo.txt: not a directory'' @ NL,
      final = example_fs\<lparr>trace := [MkdirAllNameEv ''out/foo.txt'']\<rparr>\<rparr>
   \<and> main example_env (example_flags\<lparr>flag_r := ''out/foo.txt/..''\<rparr>) '''' example_fs =
     \<lparr>exit_code = 1, stdout = '''',
      stderr = ''Error: mkdir out/foo.txt: not a directory'' @ NL,
      final = example_fs\<lparr>trace := [MkdirAllNameEv ''out/foo.txt/..'']\<rparr>\<rparr>
   \<and> main example_env (example_flags\<lparr>flag_r := ''new/../out/foo.txt''\<rparr>) '''' example_fs =
     \<lparr>exit_code = 1, stdout = '''',
      stderr = ''Error: mkdir new/../out/foo.txt: file exists'' @ NL,
      final = example_fs\<lparr>files := ([''w'', ''new''], Dir) # files example_fs,
                          trace := [MkdirAllNameEv ''new/../out/foo.txt'']\<rparr>\<rparr>
   \<and> main example_env (example_flags\<lparr>flag_r := ''''\<rparr>) '''' example_fs =
     \<lparr>exit_code = 1, stdout = '''',
      stderr = ''Error: mkdir : no such file or directory'' @ NL,
      final = example_fs\<lparr>trace := [MkdirAllNameEv '''']\<rparr>\<rparr>
   \<and> exit_code (main example_env example_flags '''' example_fs) = 0
   \<and> stderr (main example_env example_flags '''' example_fs) = ''''"
proof -
  let ?c1 = "example_cfg\<lparr>Root := ''out/foo.txt''\<rparr>"
    and ?c2 = "example_cfg\<lparr>Root := ''out/foo.txt/..''\<rparr>"
    and ?c3 = "example_cfg\<lparr>Root := ''new/../out/foo.txt''\<rparr>"
    and ?c4 = "example_cfg\<lparr>Root := ''''\<rparr>"
  have v: "\<not> flag_version (example_flags\<lparr>flag_r := ''out/foo.txt''\<rparr>)"
    "\<not> flag_version (example_flags\<lparr>flag_r := ''out/foo.txt/..''\<rparr>)"
    "\<not> flag_version (example_flags\<lparr>flag_r := ''new/../out/foo.txt''\<rparr>)"
    "\<not> flag_version (example_flags\<lparr>flag_r := ''''\<rparr>)" "\<not> flag_version example_flags"
    by (simp_all add: example_flags_def)
  have c1: "main_config (example_flags\<lparr>flag_r := ''out/foo.txt''\<rparr>) '''' = (?c1, '''')"
    by (simp add: main_config_def example_flags_def example_cfg_def)
  have c2: "main_config (example_flags\<lparr>flag_r := ''out/foo.txt/..''\<rparr>) '''' = (?c2, '''')"
    by (simp add: main_config_def example_flags_def example_cfg_def)
  have c3: "main_config (example_flags\<lparr>flag_r := ''new/../out/foo.txt''\<rparr>) '''' = (?c3, '''')"
    by (simp add: main_config_def example_flags_def example_cfg_def)
  have c4: "main_config (example_flags\<lparr>flag_r := ''''\<rparr>) '''' = (?c4, '''')"
    by (simp add: main_config_def example_flags_def example_cfg_def)
  have m1: "MkdirAll_name (cwd example_env) (Root ?c1) example_fs =
      (Some (PathError ''mkdir'' ''out/foo.txt'' ENOTDIR),
       example_fs\<lparr>trace := [MkdirAllNameEv ''out/foo.txt'']\<rparr>)"
    by code_simp
  have m2: "MkdirAll_name (cwd example_env) (Root ?c2) example_fs =
      (Some (PathError ''mkdir'' ''out/foo.txt'' ENOTDIR),
       example_fs\<lparr>trace := [MkdirAllNameEv ''out/foo.txt/..'']\<rparr>)"
    by code_simp
  have m3: "MkdirAll_name (cwd example_env) (Root ?c3) example_fs =
      (Some (PathError ''mkdir'' ''new/../out/foo.txt'' EEXIST),
       example_fs\<lparr>files := ([''w'', ''new''], Dir) # files example_fs,
                  trace := [MkdirAllNameEv ''new/../out/foo.txt'']\<rparr>)"
    by code_simp
  have m4: "MkdirAll_name (cwd example_env) (Root ?c4) example_fs =
      (Some (PathError ''mkdir'' '''' ENOENT), example_fs\<lparr>trace := [MkdirAllNameEv '''']\<rparr>)"
    by code_simp
  have e: "Error (PathError ''mkdir'' ''out/foo.txt'' ENOTDIR) = ''mkdir out/foo.txt: not a directory''"
    "Error (PathError ''mkdir'' ''new/../out/foo.txt'' EEXIST)
       = ''mkdir new/../out/foo.txt: file exists''"
    "Error (PathError ''mkdir'' '''' ENOENT) = ''mkdir : no such file or directory''"
    by (simp_all add: Error_def errno_str_def)
  have ok: "generate example_env example_cfg example_fs =
      (None, snd (generate example_env example_cfg example_fs))"
    using example_run_ok by (simp add: prod_eq_iff)
  from root_failure_aborts [OF v(1) c1, of example_env example_fs] m1
  have 1: "main example_env (example_flags\<lparr>flag_r := ''out/foo.txt''\<rparr>) '''' example_fs =
     \<lparr>exit_code = 1, stdout = '''',
      stderr = ''Error: '' @ Error (PathError ''mkdir'' ''out/foo.txt'' ENOTDIR) @ NL,
      final = example_fs\<lparr>trace := [MkdirAllNameEv ''out/foo.txt'']\<rparr>\<rparr>"
    by blast
  from root_failure_aborts [OF v(2) c2, of example_env example_fs] m2
  have 2: "main example_env (example_flags\<lparr>flag_r := ''out/foo.txt/..''\<rparr>) '''' example_fs =
     \<lparr>exit_code = 1, stdout = '''',
      stderr = ''Error: '' @ Error (PathError ''mkdir'' ''out/foo.txt'' ENOTDIR) @ NL,
      final = example_fs\<lparr>trace := [MkdirAllNameEv ''out/foo.txt/..'']\<rparr>\<rparr>"
    by blast
  from root_failure_aborts [OF v(3) c3, of example_env example_fs] m3
  have 3: "main example_env (example_flags\<lparr>flag_r := ''new/../out/foo.txt''\<rparr>) '''' example_fs =
     \<lparr>exit_code = 1, stdout = '''',
      stderr = ''Error: '' @ Error (PathError ''mkdir'' ''new/../out/foo.txt'' EEXIST) @ NL,
      final = example_fs\<lparr>files := ([''w'', ''new''], Dir) # files example_fs,
                          trace := [MkdirAllNameEv ''new/../out/foo.txt'']\<rparr>\<rparr>"
    by blast
  from root_failure_aborts [OF v(4) c4, of example_env example_fs] m4
  have 4: "main example_env (example_flags\<lparr>flag_r := ''''\<rparr>) '''' example_fs =
     \<lparr>exit_code = 1, stdout = '''',
      stderr = ''Error: '' @ Error (PathError ''mkdir'' '''' ENOENT) @ NL,
      final = example_fs\<lparr>trace := [MkdirAllNameEv '''']\<rparr>\<rparr>"
    by blast
  from root_failure_aborts [OF v(5) example_config, of example_env example_fs] ok
  have 5: "exit_code (main example_env example_flags '''' example_fs) = 0
    \<and> stderr (main example_env example_flags '''' example_fs) = ''''"
    by blast
  from 1 2 3 4 5 show ?thesis by (simp add: e)
qed

text \<open>
  C9. \<^verbatim>\<open>writeTemplate\<close> touches the file system only after the template was loaded
  and parsed: when the template is not embedded, or does not parse, the error is
  returned and the state (files and trace) is exactly as before, so the output path is
  unmodified. When the output file was opened and the execution of the template stops
  with an error, the calls made are \<^verbatim>\<open>MkdirAll\<close>, \<^verbatim>\<open>Create\<close> and the write, in
  this order, and the output file exists with exactly the bytes written before the
  error, whatever it held before.
\<close>

theorem writeTemplate_file_effects:
  "(templateFS env (''templates/'' @ name) = None \<longrightarrow>
      writeTemplate env r out name cfg s =
        (Some (PathError ''open'' (''templates/'' @ name) ErrNotExist), s))
   \<and> (\<forall>src e. templateFS env (''templates/'' @ name) = Some src \<and> Parse env name src = Inl e \<longrightarrow>
      writeTemplate env r out name cfg s = (Some e, s))
   \<and> (\<forall>src t output e.
        templateFS env (''templates/'' @ name) = Some src \<and> Parse env name src = Inr t
        \<and> open_error (Join r out) (snd (MkdirAll (Dir_of (Join r out)) s)) = None
        \<and> Execute env t (template_data cfg) = (output, Some e) \<longrightarrow>
      fst (writeTemplate env r out name cfg s) = Some e
      \<and> lookup (snd (writeTemplate env r out name cfg s)) (Join r out) = Some (File output)
      \<and> trace (snd (writeTemplate env r out name cfg s)) =
          trace s @ [MkdirAllEv (Dir_of (Join r out)), CreateEv (Join r out),
                     WriteEv (Join r out) output])"
proof (intro conjI allI impI)
  assume "templateFS env (''templates/'' @ name) = None"
  then show "writeTemplate env r out name cfg s =
      (Some (PathError ''open'' (''templates/'' @ name) ErrNotExist), s)"
    by (rule writeTemplate_missing)
next
  fix src e
  assume "templateFS env (''templates/'' @ name) = Some src \<and> Parse env name src = Inl e"
  then show "writeTemplate env r out name cfg s = (Some e, s)"
    by (simp add: writeTemplate_unparsed)
next
  fix src t written e
  assume a: "templateFS env (''templates/'' @ name) = Some src \<and> Parse env name src = Inr t
      \<and> open_error (Join r out) (snd (MkdirAll (Dir_of (Join r out)) s)) = None
      \<and> Execute env t (template_data cfg) = (written, Some e)"
  then have w: "writeTemplate env r out name cfg s =
      (Some e, Write (Join r out) written
         (snd (Create (Join r out) (snd (MkdirAll (Dir_of (Join r out)) s)))))"
    by (simp add: writeTemplate_parsed)
  from a have ne: "Join r out \<noteq> []" by (simp add: open_error_None)
  from w show "fst (writeTemplate env r out name cfg s) = Some e" by simp
  from w a ne show "lookup (snd (writeTemplate env r out name cfg s)) (Join r out) = Some (File written)"
    by (simp add: lookup_Write lookup_Create)
  from w show "trace (snd (writeTemplate env r out name cfg s)) =
      trace s @ [MkdirAllEv (Dir_of (Join r out)), CreateEv (Join r out), WriteEv (Join r out) written]"
    by simp
qed

theorem writeTemplate_file_effects_witness:
  "writeTemplate example_env_bad [''w'', ''out''] ''foo.txt'' ''none.tmpl'' example_cfg example_fs =
     (Some (PathError ''open'' ''templates/none.tmpl'' ErrNotExist), example_fs)
   \<and> writeTemplate example_env_bad [''w'', ''out''] ''foo.txt'' ''bad.tmpl'' example_cfg example_fs =
     (Some (TemplateError ''template: bad.tmpl:1: unclosed action''), example_fs)
   \<and> fst (writeTemplate example_env_bad [''w'', ''out''] ''foo.txt'' ''part.tmpl'' example_cfg example_fs) =
     Some (TemplateError (''template: part.tmpl:1:27: executing '' @ [CHR 0x22] @ ''part.tmpl''
        @ [CHR 0x22] @ '' at <.MODULE.x>: can't evaluate field x in type string''))
   \<and> lookup example_fs [''w'', ''out'', ''foo.txt''] = Some (File ''hello'')
   \<and> lookup (snd (writeTemplate example_env_bad [''w'', ''out''] ''foo.txt'' ''part.tmpl''
        example_cfg example_fs)) [''w'', ''out'', ''foo.txt''] = Some (File ''port 9090 of '')"
proof -
  have j: "Join [''w'', ''out''] ''foo.txt'' = [''w'', ''out'', ''foo.txt'']"
    by code_simp
  have 1: "templateFS example_env_bad (''templates/'' @ ''none.tmpl'') = None"
    by code_simp
  have 2: "templateFS example_env_bad (''templates/'' @ ''bad.tmpl'') = Some ''module {{.MODULE''
      \<and> Parse example_env_bad ''bad.tmpl'' ''module {{.MODULE'' =
          Inl (TemplateError ''template: bad.tmpl:1: unclosed action'')"
    by code_simp
  have 3: "templateFS example_env_bad (''templates/'' @ ''part.tmpl'') =
        Some ''port {{.PORT}} of {{.MODULE.x}} tail''
      \<and> Parse example_env_bad ''part.tmpl'' ''port {{.PORT}} of {{.MODULE.x}} tail'' =
          Inr \<lparr>tmpl_name = ''part.tmpl'', tmpl_text = ''port {{.PORT}} of {{.MODULE.x}} tail'',
               tmpl_nodes = [TextNode ''port '', FieldNode 7 [''PORT''], TextNode '' of '',
                 FieldNode 27 [''MODULE'', ''x''], TextNode '' tail'']\<rparr>
      \<and> open_error (Join [''w'', ''out''] ''foo.txt'')
          (snd (MkdirAll (Dir_of (Join [''w'', ''out''] ''foo.txt'')) example_fs)) = None
      \<and> Execute example_env_bad
          \<lparr>tmpl_name = ''part.tmpl'', tmpl_text = ''port {{.PORT}} of {{.MODULE.x}} tail'',
           tmpl_nodes = [TextNode ''port '', FieldNode 7 [''PORT''], TextNode '' of '',
             FieldNode 27 [''MODULE'', ''x''], TextNode '' tail'']\<rparr>
          (template_data example_cfg) =
          (''port 9090 of '', Some (TemplateError (''template: part.tmpl:1:27: executing '' @ [CHR 0x22] @ ''part.tmpl''
        @ [CHR 0x22] @ '' at <.MODULE.x>: can't evaluate field x in type string'')))"
    by code_simp
  have 4: "lookup example_fs [''w'', ''out'', ''foo.txt''] = Some (File ''hello'')"
    by code_simp
  note w = writeTemplate_file_effects [of example_env_bad _ "[''w'', ''out'']" "''foo.txt''"
      example_cfg example_fs]
  from w [of "''none.tmpl''"] 1
  have a: "writeTemplate example_env_bad [''w'', ''out''] ''foo.txt'' ''none.tmpl'' example_cfg example_fs =
     (Some (PathError ''open'' ''templates/none.tmpl'' ErrNotExist), example_fs)"
    by simp
  from w [of "''bad.tmpl''"] 2
  have b: "writeTemplate example_env_bad [''w'', ''out''] ''foo.txt'' ''bad.tmpl'' example_cfg example_fs =
     (Some (TemplateError ''template: bad.tmpl:1: unclosed action''), example_fs)"
    by blast
  from w [of "''part.tmpl''"] 3
  have c: "fst (writeTemplate example_env_bad [''w'', ''out''] ''foo.txt'' ''part.tmpl'' example_cfg example_fs) =
     Some (TemplateError (''template: part.tmpl:1:27: executing '' @ [CHR 0x22] @ ''part.tmpl''
        @ [CHR 0x22] @ '' at <.MODULE.x>: can't evaluate field x in type string''))
    \<and> lookup (snd (writeTemplate example_env_bad [''w'', ''out''] ''foo.txt'' ''part.tmpl''
        example_cfg example_fs)) (Join [''w'', ''out''] ''foo.txt'') = Some (File ''port 9090 of '')"
    by blast
  from a b c 4 show ?thesis by (simp add: j)
qed

text \<open>
  C4. The templates are rendered in the order of the manifest. When the entries before
  one were rendered and \<^verbatim>\<open>writeTemplate\<close> fails on it, \<^verbatim>\<open>generate\<close> returns that
  error and the state in which the failing call ended: nothing is done for the entries
  after it. The error is the one of the failing step: the template that is not
  embedded, the parse error, the error of creating the output file, or the error of
  the execution.
\<close>

theorem template_failure_aborts:
  assumes prep: "prepare env cfg s = (None, s0)"
    and split: "template_manifest = pre @ (out, name) # post"
    and pre: "render_all env cfg (Abs (cwd env) (Root cfg)) pre s0 = (None, s1)"
  shows "(\<forall>e s2. writeTemplate env (Abs (cwd env) (Root cfg)) out name cfg s1 = (Some e, s2) \<longrightarrow>
            generate env cfg s = (Some e, s2))
    \<and> (templateFS env (''templates/'' @ name) = None \<longrightarrow>
          generate env cfg s =
            (Some (PathError ''open'' (''templates/'' @ name) ErrNotExist), s1))
    \<and> (\<forall>src e. templateFS env (''templates/'' @ name) = Some src \<and> Parse env name src = Inl e \<longrightarrow>
          generate env cfg s = (Some e, s1))
    \<and> (\<forall>src t e.
          templateFS env (''templates/'' @ name) = Some src \<and> Parse env name src = Inr t
          \<and> open_error (Join (Abs (cwd env) (Root cfg)) out)
               (snd (MkdirAll (Dir_of (Join (Abs (cwd env) (Root cfg)) out)) s1)) = Some e \<longrightarrow>
          generate env cfg s =
            (Some e, snd (Create (Join (Abs (cwd env) (Root cfg)) out)
                       (snd (MkdirAll (Dir_of (Join (Abs (cwd env) (Root cfg)) out)) s1)))))
    \<and> (\<forall>src t output e.
          templateFS env (''templates/'' @ name) = Some src \<and> Parse env name src = Inr t
          \<and> open_error (Join (Abs (cwd env) (Root cfg)) out)
               (snd (MkdirAll (Dir_of (Join (Abs (cwd env) (Root cfg)) out)) s1)) = None
          \<and> Execute env t (template_data cfg) = (output, Some e) \<longrightarrow>
          generate env cfg s =
            (Some e, Write (Join (Abs (cwd env) (Root cfg)) out) output
                       (snd (Create (Join (Abs (cwd env) (Root cfg)) out)
                          (snd (MkdirAll (Dir_of (Join (Abs (cwd env) (Root cfg)) out)) s1))))))"
proof -
  let ?r = "Abs (cwd env) (Root cfg)"
  have stop: "generate env cfg s = (Some e, s2)"
    if "writeTemplate env ?r out name cfg s1 = (Some e, s2)" for e s2
    using prep render_all_stops [OF pre that, of post]
    by (simp add: generate_prepare split)
  show ?thesis
  proof (intro conjI allI impI)
    fix e s2
    assume "writeTemplate env ?r out name cfg s1 = (Some e, s2)"
    then show "generate env cfg s = (Some e, s2)" by (rule stop)
  next
    assume "templateFS env (''templates/'' @ name) = None"
    then show "generate env cfg s =
        (Some (PathError ''open'' (''templates/'' @ name) ErrNotExist), s1)"
      by (intro stop writeTemplate_missing)
  next
    fix src e
    assume "templateFS env (''templates/'' @ name) = Some src \<and> Parse env name src = Inl e"
    then show "generate env cfg s = (Some e, s1)"
      by (intro stop) (simp add: writeTemplate_unparsed)
  next
    fix src t e
    assume "templateFS env (''templates/'' @ name) = Some src \<and> Parse env name src = Inr t
        \<and> open_error (Join ?r out) (snd (MkdirAll (Dir_of (Join ?r out)) s1)) = Some e"
    then show "generate env cfg s =
        (Some e, snd (Create (Join ?r out) (snd (MkdirAll (Dir_of (Join ?r out)) s1))))"
      by (intro stop) (simp add: writeTemplate_parsed)
  next
    fix src t written e
    assume "templateFS env (''templates/'' @ name) = Some src \<and> Parse env name src = Inr t
        \<and> open_error (Join ?r out) (snd (MkdirAll (Dir_of (Join ?r out)) s1)) = None
        \<and> Execute env t (template_data cfg) = (written, Some e)"
    then show "generate env cfg s =
        (Some e, Write (Join ?r out) written
           (snd (Create (Join ?r out) (snd (MkdirAll (Dir_of (Join ?r out)) s1)))))"
      by (intro stop) (simp add: writeTemplate_parsed)
  qed
qed

theorem template_failure_aborts_witness:
  "generate example_env_missing example_cfg example_fs =
     (Some (PathError ''open'' ''templates/serverConfig.go.tmpl'' ErrNotExist),
      snd (render_all example_env_missing example_cfg [''w'', ''out''] (take 2 template_manifest)
             (snd (prepare example_env_missing example_cfg example_fs))))"
proof -
  let ?s0 = "snd (prepare example_env_missing example_cfg example_fs)"
  let ?pre = "take 2 template_manifest"
  have cw: "cwd example_env_missing = cwd example_env"
    and pe: "Parse example_env_missing = Parse example_env"
      "Execute example_env_missing = Execute example_env"
    by (simp_all add: example_env_missing_def example_env_def fragment_env_def)
  have r: "Abs (cwd example_env_missing) (Root example_cfg) = [''w'', ''out'']"
    by (simp add: cw example_root)
  have p: "prepare example_env_missing example_cfg example_fs = (None, ?s0)"
    using generate_ok_prepare(1) [OF example_run_ok] prepare_env [OF cw, of example_cfg example_fs]
    by (simp add: prod_eq_iff)
  have split: "template_manifest =
      ?pre @ (''config/init/serverConfig.go'', ''serverConfig.go.tmpl'')
        # [(''commons/utils/logger.go'', ''logger.go.tmpl'')]"
    by (simp add: template_manifest_def)
  have same: "templateFS example_env_missing (''templates/'' @ name) =
      templateFS example_env (''templates/'' @ name)" if "(out, name) \<in> set ?pre" for out name
    using that
    by (auto simp: template_manifest_def example_env_missing_def example_env_def
        fragment_env_def example_templates_def)
  have "fst (render_all example_env example_cfg [''w'', ''out''] template_manifest ?s0) = None"
    using generate_ok_prepare(2) [OF example_run_ok] prepare_env [OF cw, of example_cfg example_fs]
    by (simp add: example_root)
  then have "fst (render_all example_env example_cfg [''w'', ''out''] ?pre ?s0) = None"
    by (subst (asm) split) (rule render_all_prefix_ok)
  then have "fst (render_all example_env_missing example_cfg [''w'', ''out''] ?pre ?s0) = None"
    using render_all_env [OF same pe] by simp
  then have pre: "render_all example_env_missing example_cfg
      (Abs (cwd example_env_missing) (Root example_cfg)) ?pre ?s0 =
      (None, snd (render_all example_env_missing example_cfg [''w'', ''out''] ?pre ?s0))"
    by (simp add: r prod_eq_iff)
  have m: "templateFS example_env_missing (''templates/'' @ ''serverConfig.go.tmpl'') = None"
    by code_simp
  from template_failure_aborts [OF p split pre] m show ?thesis by simp
qed

text \<open>
  C5. Once the root is created, the loop over \<^verbatim>\<open>dirs\<close> calls \<^verbatim>\<open>os.MkdirAll\<close> on
  every directory of the manifest under the resolved root, in the order of the manifest,
  and, when \<^verbatim>\<open>cfg.Gitkeep\<close> is set, \<^verbatim>\<open>os.WriteFile\<close> with no bytes on the
  \<^verbatim>\<open>.gitkeep\<close> in it right after; whether a call fails changes nothing in the calls
  that follow. The directory exists after the run (with what is above it) unless a
  regular file stands at or above its path when the loop starts, which cannot be after
  the clean step; \<^verbatim>\<open>os.MkdirAll\<close> on a directory that exists changes nothing. With
  \<^verbatim>\<open>cfg.Gitkeep\<close> the marker is an empty regular file after the run, whatever it held
  before, unless a directory has its name. Without \<^verbatim>\<open>cfg.Gitkeep\<close> every regular
  file named \<^verbatim>\<open>.gitkeep\<close> after the run was there before it, with the same bytes.
\<close>

theorem manifest_directories:
  assumes "fst (MkdirAll_name (cwd env) (Root cfg) s) = None"
    and "r = Abs (cwd env) (Root cfg)"
    and "s1 = snd (MkdirAll_name (cwd env) (Root cfg) s)"
    and "s' = snd (generate env cfg s)"
    and "dir \<in> set dirs"
  shows "prefix
           (trace (before_dirs env cfg s)
            @ concat (map (\<lambda>dir. MkdirAllEv (Join r dir)
                # (if Gitkeep cfg then [WriteFileEv (Join (Join r dir) ''.gitkeep'') ''''] else []))
                dirs))
           (trace s')
       \<and> (Clean cfg \<and> wf_state s \<or> \<not> Clean cfg \<and> \<not> blocked s1 (Join r dir) \<longrightarrow>
            lookup s' (Join r dir) = Some Dir)
       \<and> (\<forall>t. lookup t (Join r dir) = Some Dir \<longrightarrow>
            MkdirAll (Join r dir) t = (None, log (MkdirAllEv (Join r dir)) t))
       \<and> (Gitkeep cfg
            \<and> (Clean cfg \<and> wf_state s
                \<or> \<not> Clean cfg \<and> \<not> blocked s1 (Join r dir)
                   \<and> lookup s1 (Join (Join r dir) ''.gitkeep'') \<noteq> Some Dir) \<longrightarrow>
            lookup s' (Join (Join r dir) ''.gitkeep'') = Some (File ''''))
       \<and> (\<not> Gitkeep cfg \<longrightarrow>
            (\<forall>q c. q \<noteq> [] \<and> last q = ''.gitkeep'' \<and> lookup s' q = Some (File c) \<longrightarrow>
               lookup s q = Some (File c)))"
proof (intro conjI allI impI)
  note root = assms(1) and r = assms(2) and s1 = assms(3) and s' = assms(4)
  from assms(5) obtain d where d: "d \<in> set dir_paths" and j: "Join r dir = r @ d"
    using dirs_paths_entry by blast
  have m: "Join (Join r dir) ''.gitkeep'' = r @ d @ [''.gitkeep'']"
    by (simp add: j Join_gitkeep)
  show "prefix
           (trace (before_dirs env cfg s)
            @ concat (map (\<lambda>dir. MkdirAllEv (Join r dir)
                # (if Gitkeep cfg then [WriteFileEv (Join (Join r dir) ''.gitkeep'') ''''] else []))
                dirs))
           (trace s')"
    unfolding r s' by (rule generate_dir_events [OF root])
  show "lookup s' (Join r dir) = Some Dir"
    if "Clean cfg \<and> wf_state s \<or> \<not> Clean cfg \<and> \<not> blocked s1 (Join r dir)"
    using that unfolding j unfolding r s' s1 by (intro generate_dir_created [OF root d])
  show "MkdirAll (Join r dir) t = (None, log (MkdirAllEv (Join r dir)) t)"
    if "lookup t (Join r dir) = Some Dir" for t
    using that by (simp add: MkdirAll_def)
  show "lookup s' (Join (Join r dir) ''.gitkeep'') = Some (File '''')"
    if h: "Gitkeep cfg
            \<and> (Clean cfg \<and> wf_state s
                \<or> \<not> Clean cfg \<and> \<not> blocked s1 (Join r dir)
                   \<and> lookup s1 (Join (Join r dir) ''.gitkeep'') \<noteq> Some Dir)"
  proof -
    from h have free: "Clean cfg \<and> wf_state s
        \<or> \<not> Clean cfg \<and> \<not> blocked (snd (MkdirAll_name (cwd env) (Root cfg) s))
            (Abs (cwd env) (Root cfg) @ d)"
      unfolding j unfolding r s1 by blast
    from h have nd: "Clean cfg \<and> wf_state s
        \<or> \<not> Clean cfg \<and> lookup (snd (MkdirAll_name (cwd env) (Root cfg) s))
            (Abs (cwd env) (Root cfg) @ d @ [''.gitkeep'']) \<noteq> Some Dir"
      unfolding m unfolding r s1 by blast
    have ok: "fst (MkdirAll (Abs (cwd env) (Root cfg) @ d) (before_dirs env cfg s)) = None"
      using root free by (rule before_dirs_ok)
    have "lookup (before_dirs env cfg s) (Abs (cwd env) (Root cfg) @ d @ [''.gitkeep''])
        \<noteq> Some Dir"
      by (rule before_dirs_not_dir [OF root _ nd]) simp
    with root conjunct1 [OF h] d ok show ?thesis
      unfolding m unfolding r s' by (rule generate_marker_written)
  qed
  show "lookup s q = Some (File c)"
    if "\<not> Gitkeep cfg" and "q \<noteq> [] \<and> last q = ''.gitkeep'' \<and> lookup s' q = Some (File c)"
    for q c
    using that unfolding s' by (intro generate_no_marker [of cfg q env s c]) simp_all
qed

theorem manifest_directories_witness:
  "lookup (snd (generate example_env example_cfg example_fs)) [''w'', ''out'', ''cmd''] = Some Dir
   \<and> lookup (snd (generate example_env example_cfg example_fs)) [''w'', ''out'', ''cmd'', ''.gitkeep'']
       = Some (File '''')"
proof -
  have d: "''cmd'' \<in> set dirs" by (simp add: dirs_def)
  have c: "Clean example_cfg" "Gitkeep example_cfg" by (simp_all add: example_cfg_def)
  have j: "Join [''w'', ''out''] ''cmd'' = [''w'', ''out'', ''cmd'']"
    "Join [''w'', ''out'', ''cmd''] ''.gitkeep'' = [''w'', ''out'', ''cmd'', ''.gitkeep'']"
    by (simp_all add: Join_def clean_onto_def clean_step_def)
  from manifest_directories [OF example_root_ok example_root [symmetric] refl refl d]
    c example_wf
  show ?thesis by (simp add: j)
qed



text \<open>
  C10, as the source has it. With \<^verbatim>\<open>cfg.Gitkeep\<close> set, after a successful run each of
  the four directories that receive a rendered file holds that file, and holds an empty
  regular file \<^verbatim>\<open>.gitkeep\<close> provided that no directory of that name is in it when the
  loop over the directories starts: after the clean step in a well-formed tree, or,
  without the clean step, when there is none once the root is created. (The error of the
  \<^verbatim>\<open>os.WriteFile\<close> of a marker is dropped, so a run in which a marker could not be
  written still succeeds.)
\<close>

theorem markers_beside_sources:
  assumes "generate env cfg s = (None, s')" and "Gitkeep cfg"
    and "r = Abs (cwd env) (Root cfg)"
    and "s1 = snd (MkdirAll_name (cwd env) (Root cfg) s)"
    and "p \<in> set out_paths"
    and "Clean cfg \<and> wf_state s
         \<or> \<not> Clean cfg \<and> lookup s1 (r @ butlast p @ [''.gitkeep'']) \<noteq> Some Dir"
  shows "lookup s' (r @ butlast p @ [''.gitkeep'']) = Some (File '''')
       \<and> is_file (lookup s' (r @ p))
       \<and> lookup s' (r @ butlast p) = Some Dir"
proof -
  note r = assms(3) and s1 = assms(4) and p = assms(5)
  from assms(1) have ok: "fst (generate env cfg s) = None"
    and s': "s' = snd (generate env cfg s)" by simp_all
  note free = generate_ok_dir_free [OF ok p]
  from p have d: "butlast p \<in> set dir_paths" by (rule out_paths_dirs)
  have nd: "lookup (before_dirs env cfg s)
      (Abs (cwd env) (Root cfg) @ butlast p @ [''.gitkeep'']) \<noteq> Some Dir"
    by (rule before_dirs_not_dir [OF free(1)]) (use assms(6) in \<open>simp_all add: r s1\<close>)
  from free(1) assms(2) d free(2) nd
  have 1: "lookup s' (r @ butlast p @ [''.gitkeep'']) = Some (File '''')"
    unfolding r s' by (rule generate_marker_written)
  from ok p have 2: "is_file (lookup s' (r @ p))" unfolding r s' by (rule generate_ok_outputs)
  from d free(2) have "lookup (make_dirs cfg (Abs (cwd env) (Root cfg)) (before_dirs env cfg s))
      (Abs (cwd env) (Root cfg) @ butlast p) = Some Dir"
    by (rule make_dirs_dir_ok)
  with chg_write_files have 3: "lookup s' (r @ butlast p) = Some Dir"
    unfolding r s' generate_before_dirs [OF free(1)] by (rule chg_dir)
  from 1 2 3 show ?thesis by simp
qed

theorem markers_beside_sources_witness:
  "lookup (snd (generate example_env example_cfg example_fs))
       [''w'', ''out'', ''config'', ''init'', ''.gitkeep''] = Some (File '''')
   \<and> is_file (lookup (snd (generate example_env example_cfg example_fs))
       [''w'', ''out'', ''config'', ''init'', ''serverConfig.go''])"
proof -
  have ok: "generate example_env example_cfg example_fs =
      (None, snd (generate example_env example_cfg example_fs))"
    using example_run_ok by (simp add: prod_eq_iff)
  have p: "[''config'', ''init'', ''serverConfig.go''] \<in> set out_paths"
    by (simp add: out_paths_def)
  have c: "Gitkeep example_cfg" "Clean example_cfg \<and> wf_state example_fs"
    by (simp_all add: example_cfg_def example_wf)
  from markers_beside_sources [OF ok c(1) example_root [symmetric] refl p] c(2)
  show ?thesis by simp
qed

theorem markers_beside_sources_counterexample:
  "fst (generate example_env example_cfg_kept example_fs_marker) = None
   \<and> Gitkeep example_cfg_kept
   \<and> lookup (snd (generate example_env example_cfg_kept example_fs_marker))
       [''w'', ''out'', ''cmd'', ''.gitkeep''] = Some Dir
   \<and> \<not> is_file (lookup (snd (generate example_env example_cfg_kept example_fs_marker))
       [''w'', ''out'', ''cmd'', ''.gitkeep''])"
proof -
  have c: "\<not> Clean example_cfg_kept" "Gitkeep example_cfg_kept"
    by (simp_all add: example_cfg_kept_def example_cfg_def)
  have "lookup example_fs_marker [''w'', ''out'', ''cmd'', ''.gitkeep''] = Some Dir"
    by code_simp
  with c(1) have "lookup (snd (generate example_env example_cfg_kept example_fs_marker))
       [''w'', ''out'', ''cmd'', ''.gitkeep''] = Some Dir"
    by (rule generate_keeps_dir)
  with example_marker_run_ok c(2) show ?thesis by (simp add: is_file_def)
qed

text \<open>
  C7, as the library has it. The source executes the templates on a
  \<^verbatim>\<open>map[string]string\<close> with the keys \<^verbatim>\<open>MODULE\<close> and \<^verbatim>\<open>PORT\<close> and sets no
  option, so \<^verbatim>\<open>missingkey=default\<close> applies: a reference \<^verbatim>\<open>{{.K}}\<close> to a name
  that is not a key is a field node, and executing it prints \<^verbatim>\<open><no value>\<close> and
  goes on with the rest of the template. The reference is neither kept as text nor an
  error.
\<close>

theorem unknown_key_renders_no_value:
  assumes "k \<noteq> ''MODULE''" and "k \<noteq> ''PORT''"
  shows "(ident_ok k \<longrightarrow> parse_action pos (''.'' @ k) = Some (FieldNode pos [k]))
       \<and> eval_field name src pos (template_data cfg) (k # rest) = Inr ''<no value>''
       \<and> (\<forall>o1. exec_nodes name src pre (template_data cfg) out = (o1, None) \<longrightarrow>
            exec_nodes name src (pre @ FieldNode pos (k # rest) # post) (template_data cfg) out
              = exec_nodes name src post (template_data cfg) (o1 @ ''<no value>''))"
proof (intro conjI allI impI)
  from assms have d: "template_data cfg k = None" by (simp add: template_data_def)
  show "parse_action pos (''.'' @ k) = Some (FieldNode pos [k])" if "ident_ok k"
    using that by (rule parse_action_field)
  from d show e: "eval_field name src pos (template_data cfg) (k # rest) = Inr ''<no value>''"
    by (simp add: eval_field_def)
  show "exec_nodes name src (pre @ FieldNode pos (k # rest) # post) (template_data cfg) out
      = exec_nodes name src post (template_data cfg) (o1 @ ''<no value>'')"
    if "exec_nodes name src pre (template_data cfg) out = (o1, None)" for o1
    using that by (simp add: exec_nodes_append e)
qed

theorem unknown_key_renders_no_value_witness:
  "parse_template ''unknown.tmpl'' ''port {{.FOO}} open'' =
     Inr \<lparr>tmpl_name = ''unknown.tmpl'', tmpl_text = ''port {{.FOO}} open'',
          tmpl_nodes = [TextNode ''port '', FieldNode 7 [''FOO''], TextNode '' open'']\<rparr>
   \<and> exec_nodes ''unknown.tmpl'' ''port {{.FOO}} open''
        ([TextNode ''port ''] @ FieldNode 7 [''FOO''] # [TextNode '' open''])
        (template_data example_cfg) '''' = (''port <no value> open'', None)"
proof -
  have p: "parse_template ''unknown.tmpl'' ''port {{.FOO}} open'' =
     Inr \<lparr>tmpl_name = ''unknown.tmpl'', tmpl_text = ''port {{.FOO}} open'',
          tmpl_nodes = [TextNode ''port '', FieldNode 7 [''FOO''], TextNode '' open'']\<rparr>"
    by code_simp
  have pre: "exec_nodes ''unknown.tmpl'' ''port {{.FOO}} open'' [TextNode ''port '']
      (template_data example_cfg) '''' = (''port '', None)"
    by simp
  from unknown_key_renders_no_value [of "''FOO''" 7 "''unknown.tmpl''" "''port {{.FOO}} open''"
      example_cfg "[]" "[TextNode ''port '']" "''''" "[TextNode '' open'']"] pre
  have "exec_nodes ''unknown.tmpl'' ''port {{.FOO}} open''
        ([TextNode ''port ''] @ FieldNode 7 [''FOO''] # [TextNode '' open''])
        (template_data example_cfg) ''''
      = exec_nodes ''unknown.tmpl'' ''port {{.FOO}} open'' [TextNode '' open'']
        (template_data example_cfg) (''port '' @ ''<no value>'')"
    by simp
  with p show ?thesis by simp
qed

theorem unknown_key_renders_no_value_counterexample:
  "templateFS example_env_unknown ''templates/unknown.tmpl'' = Some ''port {{.FOO}} open''
   \<and> template_data example_cfg ''FOO'' = None
   \<and> fst (writeTemplate example_env_unknown [''w'', ''out''] ''unknown.txt'' ''unknown.tmpl''
        example_cfg example_fs) = None
   \<and> lookup (snd (writeTemplate example_env_unknown [''w'', ''out''] ''unknown.txt'' ''unknown.tmpl''
        example_cfg example_fs)) [''w'', ''out'', ''unknown.txt'']
      = Some (File ''port <no value> open'')
   \<and> \<not> sublist ''{{.FOO}}'' ''port <no value> open''"
  by code_simp

text \<open>
  C2, as the source has it. Take a configuration with \<^verbatim>\<open>cfg.Clean\<close> set whose root
  name has no component \<^verbatim>\<open>..\<close>, and a well-formed tree. Running \<^verbatim>\<open>generate\<close> again
  with the same configuration, from the tree that the first run left, returns what the
  first run returned (success, or the same error) and leaves every path as the first
  run left it: the same directories, the same files, the same bytes. (A root name that
  steps through \<^verbatim>\<open>..\<close> may walk through a path that the first run turned into a
  file.)
\<close>

theorem rerun_same_tree:
  assumes "Clean cfg" and "wf_state s"
    and "''..'' \<notin> set (split_on (CHR ''/'') (Root cfg))"
    and "generate env cfg s = (r1, s1)" and "generate env cfg s1 = (r2, s2)"
  shows "r2 = r1 \<and> lookup s2 = lookup s1"
proof -
  from assms(4) have 1: "r1 = fst (generate env cfg s)" "s1 = snd (generate env cfg s)"
    by simp_all
  from assms(5) have 2: "r2 = fst (generate env cfg s1)" "s2 = snd (generate env cfg s1)"
    by simp_all
  show ?thesis
  proof (cases "fst (MkdirAll_name (cwd env) (Root cfg) s)")
    case None
    from generate_again [OF None assms(1) assms(2) assms(3)] show ?thesis
      unfolding 2 unfolding 1 by simp
  next
    case (Some e)
    then have "fst (MkdirAll_name (cwd env) (Root cfg) s) \<noteq> None" by simp
    from generate_again_fails [OF assms(2) assms(3) this] show ?thesis
      unfolding 2 unfolding 1 by simp
  qed
qed

theorem rerun_same_tree_witness:
  "fst (generate example_env example_cfg (snd (generate example_env example_cfg example_fs))) = None
   \<and> lookup (snd (generate example_env example_cfg
        (snd (generate example_env example_cfg example_fs))))
     = lookup (snd (generate example_env example_cfg example_fs))"
proof -
  have c: "Clean example_cfg" "''..'' \<notin> set (split_on (CHR ''/'') (Root example_cfg))"
    by (simp_all add: example_cfg_def)
  from rerun_same_tree [where env = example_env, OF c(1) example_wf c(2) surjective_pairing
      surjective_pairing]
    example_run_ok
  show ?thesis by simp
qed

theorem rerun_same_tree_counterexample:
  "Clean example_cfg_dots
   \<and> wf_state example_fs
   \<and> fst (generate example_env example_cfg_dots example_fs) = None
   \<and> lookup (snd (generate example_env example_cfg_dots example_fs)) [''w'', ''out'', ''new''] = None
   \<and> fst (generate example_env example_cfg_dots
        (snd (generate example_env example_cfg_dots example_fs)))
      = Some (PathError ''mkdir'' ''out/new/../go.mod'' EEXIST)
   \<and> lookup (snd (generate example_env example_cfg_dots
        (snd (generate example_env example_cfg_dots example_fs)))) [''w'', ''out'', ''new'']
      = Some Dir"
proof -
  have "Clean example_cfg_dots" by (simp add: example_cfg_dots_def example_cfg_def)
  with example_wf example_dots_run_ok example_dots_first(3) show ?thesis
    by (simp add: example_dots_second lookup_add)
qed

end
